theory Spec2Isabelle
  imports Complex_Main
begin

section \<open>The Python operations that \<open>Millar.dist\<close> relies on\<close>

text \<open>
  In this first model Python floats are the real numbers: \<open>math.log\<close> is the natural
  logarithm \<open>ln\<close>, true division is division of reals. Round-off is not part of
  it (the later sections add it). What is part of it are the two ways in which the arithmetic of
  \<open>Millar.dist\<close> can raise: \<open>math.log\<close> raises \<open>ValueError\<close> for an argument
  that is not strictly positive, and \<open>/\<close> raises \<open>ZeroDivisionError\<close> for a zero divisor.
\<close>

datatype error = ValueError | ZeroDivisionError | InvalidConfiguration

definition py_log :: "real \<Rightarrow> error + real" where
  "py_log x = (if 0 < x then Inr (ln x) else Inl ValueError)"

definition py_truediv :: "real \<Rightarrow> real \<Rightarrow> error + real" where
  "py_truediv a b = (if b = 0 then Inl ZeroDivisionError else Inr (a / b))"

definition bind_err :: "error + 'a \<Rightarrow> ('a \<Rightarrow> error + 'b) \<Rightarrow> error + 'b" where
  "bind_err m f = (case m of Inl e \<Rightarrow> Inl e | Inr x \<Rightarrow> f x)"

text \<open>
  A \<open>collections.Counter\<close> is a dictionary from tokens to counts, kept here as an
  association list in insertion order. Counting a token list adds one per occurrence;
  looking up a missing key gives 0 (\<open>Counter.__missing__\<close>); \<open>keys\<close> are the first
  components.
\<close>

type_synonym 't counter = "('t \<times> nat) list"

fun counter_add :: "'t \<Rightarrow> 't counter \<Rightarrow> 't counter" where
  "counter_add t [] = [(t, 1)]"
| "counter_add t ((k, n) # c) =
     (if k = t then (k, Suc n) # c else (k, n) # counter_add t c)"

definition Counter :: "'t list \<Rightarrow> 't counter" where
  "Counter ts = fold counter_add ts []"

definition counter_get :: "'t counter \<Rightarrow> 't \<Rightarrow> nat" where
  "counter_get c t = (case map_of c t of None \<Rightarrow> 0 | Some n \<Rightarrow> n)"

definition keys :: "'t counter \<Rightarrow> 't list" where
  "keys c = map fst c"

section \<open>The tokenizer\<close>

text \<open>
  Modelled from the spec: the tokenizer (abydos' \<open>QGrams\<close>) is not among the sources.
  Section 4.1 of the specification: a string becomes its overlapping substrings of
  width \<open>q\<close>; the empty string gives no token; a string shorter than \<open>q\<close> is emitted
  whole as a single token; boundary markers are optional (\<open>start_stop\<close>, \<open>q - 1\<close>
  copies of the first marker before and of the second after the string).
\<close>

text \<open>
  Modelled from the spec: the windows of width \<open>q\<close> of a string, from left to right
  (the substring extraction of the missing tokenizer).
\<close>

fun windows :: "nat \<Rightarrow> 'c list \<Rightarrow> 'c list list" where
  "windows q [] = []"
| "windows q (x # xs) =
     (if length (x # xs) < q then [] else take q (x # xs) # windows q xs)"

text \<open>
  Modelled from the spec: the q-gram tokenizer itself, missing from the sources, with
  the edge cases of section 4.1 (empty string, string shorter than \<open>q\<close>).
\<close>

definition qgrams :: "nat \<Rightarrow> ('c \<times> 'c) option \<Rightarrow> 'c list \<Rightarrow> 'c list list" where
  "qgrams q start_stop s =
     (if s = [] then []
      else let padded = (case start_stop of
                           None \<Rightarrow> s
                         | Some (a, b) \<Rightarrow> replicate (q - 1) a @ s @ replicate (q - 1) b)
           in if length padded < q then [padded] else windows q padded)"

text \<open>
  Modelled from the spec: \<open>_TokenDistance._tokenize\<close> is not among the sources.
  It tokenizes both strings with the same tokenizer and stores the two frequency
  mappings in the fields \<open>_src_tokens\<close> and \<open>_tar_tokens\<close> of the instance.
\<close>

record 't token_distance =
  src_tokens :: "'t counter"
  tar_tokens :: "'t counter"

definition tokenize :: "('c list \<Rightarrow> 't list) \<Rightarrow> 'c list \<Rightarrow> 'c list \<Rightarrow> 't token_distance" where
  "tokenize tokenizer src tar =
     \<lparr>src_tokens = Counter (tokenizer src), tar_tokens = Counter (tokenizer tar)\<rparr>"

section \<open>\<open>Millar.dist\<close>\<close>

text \<open>
  One of the two guarded products of the loop body:
  \<^verbatim>\<open>val = 0; if tok_count: val = tok_count * log(tok_count / n_k)\<close>
\<close>

definition guarded_val :: "nat \<Rightarrow> nat \<Rightarrow> error + real" where
  "guarded_val cnt n_k =
     (if cnt \<noteq> 0
      then bind_err (py_truediv (real cnt) (real n_k))
             (\<lambda>r. bind_err (py_log r) (\<lambda>l. Inr (real cnt * l)))
      else Inr 0)"

text \<open>The body of the loop for one token: the summand added to \<open>score\<close>.\<close>

definition millar_term :: "'t counter \<Rightarrow> 't counter \<Rightarrow> real \<Rightarrow> 't \<Rightarrow> error + real" where
  "millar_term src_tok tar_tok log2 tok =
     (let n_k = counter_get src_tok tok + counter_get tar_tok tok
      in bind_err (guarded_val (counter_get src_tok tok) n_k) (\<lambda>src_val.
         bind_err (guarded_val (counter_get tar_tok tok) n_k) (\<lambda>tar_val.
         py_truediv (src_val + tar_val + real n_k * log2) (real n_k))))"

text \<open>\<^verbatim>\<open>for tok in alphabet: ... score += ...\<close>, stopping at the first exception.\<close>

fun millar_loop :: "'t counter \<Rightarrow> 't counter \<Rightarrow> real \<Rightarrow> 't list \<Rightarrow> real \<Rightarrow> error + real" where
  "millar_loop src_tok tar_tok log2 [] score = Inr score"
| "millar_loop src_tok tar_tok log2 (tok # rest) score =
     (case millar_term src_tok tar_tok log2 tok of
        Inl e \<Rightarrow> Inl e
      | Inr c \<Rightarrow> millar_loop src_tok tar_tok log2 rest (score + c))"

text \<open>
  The alphabet is a Python set; the model enumerates it as the duplicate-free list of
  the keys of both counters. The source binds \<open>tar_tok\<close> to \<open>_src_tokens\<close> and
  \<open>src_tok\<close> to \<open>_tar_tokens\<close>; the model keeps that.
\<close>

definition alphabet_of :: "'t counter \<Rightarrow> 't counter \<Rightarrow> 't list" where
  "alphabet_of src_tok tar_tok = remdups (keys src_tok @ keys tar_tok)"

definition millar_dist :: "('c list \<Rightarrow> 't list) \<Rightarrow> 'c list \<Rightarrow> 'c list \<Rightarrow> error + real" where
  "millar_dist tokenizer src tar =
     (let self = tokenize tokenizer src tar;
          tar_tok = src_tokens self;
          src_tok = tar_tokens self;
          alphabet = alphabet_of src_tok tar_tok
      in bind_err (py_log 2) (\<lambda>log2.
         bind_err (millar_loop src_tok tar_tok log2 alphabet 0) (\<lambda>score.
         if score > 0 then Inr score else Inr 0)))"


text \<open>
  The value of the loop body in closed form, for the two counts of a token, and the
  final test \<^verbatim>\<open>if score > 0: return score; return 0.0\<close>.
\<close>

definition contribution :: "nat \<Rightarrow> nat \<Rightarrow> real" where
  "contribution a b =
     ((if a = 0 then 0 else real a * ln (real a / real (a + b)))
      + (if b = 0 then 0 else real b * ln (real b / real (a + b)))
      + real (a + b) * ln 2) / real (a + b)"

definition clamp :: "real \<Rightarrow> real" where
  "clamp score = (if score > 0 then score else 0)"

section \<open>Configuration\<close>

text \<open>
  Modelled from the spec: the constructor of the base class (\<open>_TokenDistance.__init__\<close>),
  to which \<open>Millar.__init__\<close> forwards its keyword arguments, is not among the sources.
  Section 6 of the specification: \<open>configure(q, tokenization_mode)\<close> constructs an
  immutable combinator instance and fails with an InvalidConfiguration error if \<open>q < 1\<close>.
  Section 4.1: the whitespace-word mode emits the whitespace-delimited words.
\<close>

text \<open>
  Modelled from the spec: the two tokenization modes and the configured instance
  (the fields of the missing base class).
\<close>

datatype tokenization_mode = CharacterNgram | WhitespaceWord

record combinator =
  qval :: int
  mode :: tokenization_mode

text \<open>
  Modelled from the spec: \<open>configure\<close>, standing for the missing constructor
  \<open>_TokenDistance.__init__\<close>; it fails with InvalidConfiguration when \<open>q < 1\<close>.
\<close>

definition configure :: "int \<Rightarrow> tokenization_mode \<Rightarrow> error + combinator" where
  "configure q m =
     (if q < 1 then Inl InvalidConfiguration else Inr \<lparr>qval = q, mode = m\<rparr>)"

text \<open>
  Modelled from the spec: the whitespace-word tokenizer, missing from the sources;
  the words are the maximal runs of characters that are not whitespace.
\<close>

definition whitespace :: "char list" where
  "whitespace = [CHR '' '', CHR 0x09, CHR 0x0A, CHR 0x0B, CHR 0x0C, CHR 0x0D]"

fun split_words :: "string \<Rightarrow> string \<Rightarrow> string list" where
  "split_words cur [] = (if cur = [] then [] else [cur])"
| "split_words cur (c # cs) =
     (if c \<in> set whitespace
      then (if cur = [] then split_words [] cs else cur # split_words [] cs)
      else split_words (cur @ [c]) cs)"

text \<open>
  Modelled from the spec: the tokenizer that a configured instance uses, and the
  distance operation of the instance, which is \<open>Millar.dist\<close> with that tokenizer.
\<close>

definition tokenizer_of :: "combinator \<Rightarrow> string \<Rightarrow> string list" where
  "tokenizer_of c =
     (case mode c of
        CharacterNgram \<Rightarrow> qgrams (nat (qval c)) None
      | WhitespaceWord \<Rightarrow> split_words [])"

definition distance :: "combinator \<Rightarrow> string \<Rightarrow> string \<Rightarrow> error + real" where
  "distance c src tar = millar_dist (tokenizer_of c) src tar"

section \<open>\<open>Millar.dist\<close> over an arbitrary floating-point arithmetic\<close>

text \<open>
  The same code once more, with the four floating-point operations it uses as
  parameters: addition, multiplication, division and \<open>math.log\<close>. Nothing is assumed of
  how they round; what raises is as before (\<open>math.log\<close> for an argument that is not
  positive, \<open>/\<close> for a zero divisor). The exact operations of the reals are one
  instance (\<open>exact\<close>, which gives back \<open>millar_dist\<close>); the arithmetic of IEEE 754
  doubles (\<open>binary64\<close>, below) is another.
\<close>

record arith =
  fadd :: "real \<Rightarrow> real \<Rightarrow> real"
  fmul :: "real \<Rightarrow> real \<Rightarrow> real"
  fdiv :: "real \<Rightarrow> real \<Rightarrow> real"
  flog :: "real \<Rightarrow> real"

definition log_in :: "arith \<Rightarrow> real \<Rightarrow> error + real" where
  "log_in ar x = (if 0 < x then Inr (flog ar x) else Inl ValueError)"

definition truediv_in :: "arith \<Rightarrow> real \<Rightarrow> real \<Rightarrow> error + real" where
  "truediv_in ar a b = (if b = 0 then Inl ZeroDivisionError else Inr (fdiv ar a b))"

definition guarded_val_in :: "arith \<Rightarrow> nat \<Rightarrow> nat \<Rightarrow> error + real" where
  "guarded_val_in ar cnt n_k =
     (if cnt \<noteq> 0
      then bind_err (truediv_in ar (real cnt) (real n_k))
             (\<lambda>r. bind_err (log_in ar r) (\<lambda>l. Inr (fmul ar (real cnt) l)))
      else Inr 0)"

definition millar_term_in ::
  "arith \<Rightarrow> 't counter \<Rightarrow> 't counter \<Rightarrow> real \<Rightarrow> 't \<Rightarrow> error + real" where
  "millar_term_in ar src_tok tar_tok log2 tok =
     (let n_k = counter_get src_tok tok + counter_get tar_tok tok
      in bind_err (guarded_val_in ar (counter_get src_tok tok) n_k) (\<lambda>src_val.
         bind_err (guarded_val_in ar (counter_get tar_tok tok) n_k) (\<lambda>tar_val.
         truediv_in ar (fadd ar (fadd ar src_val tar_val) (fmul ar (real n_k) log2))
           (real n_k))))"

fun millar_loop_in ::
  "arith \<Rightarrow> 't counter \<Rightarrow> 't counter \<Rightarrow> real \<Rightarrow> 't list \<Rightarrow> real \<Rightarrow> error + real" where
  "millar_loop_in ar src_tok tar_tok log2 [] score = Inr score"
| "millar_loop_in ar src_tok tar_tok log2 (tok # rest) score =
     (case millar_term_in ar src_tok tar_tok log2 tok of
        Inl e \<Rightarrow> Inl e
      | Inr c \<Rightarrow> millar_loop_in ar src_tok tar_tok log2 rest (fadd ar score c))"

definition millar_dist_in ::
  "arith \<Rightarrow> ('c list \<Rightarrow> 't list) \<Rightarrow> 'c list \<Rightarrow> 'c list \<Rightarrow> error + real" where
  "millar_dist_in ar tokenizer src tar =
     (let self = tokenize tokenizer src tar;
          tar_tok = src_tokens self;
          src_tok = tar_tokens self;
          alphabet = alphabet_of src_tok tar_tok
      in bind_err (log_in ar 2) (\<lambda>log2.
         bind_err (millar_loop_in ar src_tok tar_tok log2 alphabet 0) (\<lambda>score.
         if score > 0 then Inr score else Inr 0)))"

text \<open>The arithmetic of the reals, without rounding.\<close>

definition exact :: arith where
  "exact = \<lparr>fadd = (+), fmul = (*), fdiv = (/), flog = ln\<rparr>"

text \<open>
  The quotient of two positive integers, the first not above the second, does not
  round to zero or below (so that \<open>math.log\<close> accepts it).
\<close>

definition quotients_positive :: "arith \<Rightarrow> bool" where
  "quotients_positive ar \<longleftrightarrow> (\<forall>a n::nat. 0 < a \<and> a \<le> n \<longrightarrow> 0 < fdiv ar (real a) (real n))"

text \<open>An arithmetic whose logarithm comes out too small by \<open>1 / 2 ^ 60\<close>; the rest is exact.\<close>

definition log_low :: arith where
  "log_low = \<lparr>fadd = (+), fmul = (*), fdiv = (/), flog = (\<lambda>x. ln x - 1 / 2 ^ 60)\<rparr>"

section \<open>IEEE 754 double precision\<close>

text \<open>
  Python floats are IEEE 754 binary64 numbers. \<open>fl\<close> rounds a real number to the
  nearest number with a significand of 53 bits, a tie to the even significand. Overflow,
  underflow and subnormal numbers are left out: the numbers that \<open>Millar.dist\<close> computes
  from strings are far from both ends of the range. \<open>round_even\<close> rounds the scaled
  significand to an integer, \<open>ulp_exp\<close> is the exponent of the last bit.
\<close>

definition round_even :: "real \<Rightarrow> int" where
  "round_even y =
     (let f = \<lfloor>y\<rfloor>; d = y - of_int f
      in if d < 1 / 2 then f else if 1 / 2 < d then f + 1 else if even f then f else f + 1)"

definition ulp_exp :: "real \<Rightarrow> int" where
  "ulp_exp x = \<lfloor>log 2 \<bar>x\<bar>\<rfloor> - 52"

definition fl :: "real \<Rightarrow> real" where
  "fl x =
     (if x = 0 then 0
      else sgn x * (of_int (round_even (\<bar>x\<bar> / 2 powr of_int (ulp_exp x)))
                    * 2 powr of_int (ulp_exp x)))"

text \<open>
  The arithmetic of doubles: \<open>+\<close>, \<open>*\<close> and \<open>/\<close> are the exact operation followed by
  \<open>fl\<close>, as the standard requires. \<open>math.log\<close> is taken to be correctly rounded too;
  at the arguments used below this is what the C library returns
  (\<open>log(1.0) = 0.0\<close>, \<open>log(2.0) = 0x1.62e42fefa39efp-1\<close>,
  \<open>log(0.75) = -0x1.269621134db92p-2\<close>, and \<open>log(0.5)\<close> and \<open>log(0.25)\<close> the
  negatives of \<open>log(2.0)\<close> and of its double).
\<close>

definition binary64 :: arith where
  "binary64 = \<lparr>fadd = (\<lambda>x y. fl (x + y)), fmul = (\<lambda>x y. fl (x * y)),
                fdiv = (\<lambda>x y. fl (x / y)), flog = (\<lambda>x. fl (ln x))\<rparr>"

section \<open>Facts about counters\<close>

lemma counter_get_add:
  "counter_get (counter_add t c) k = counter_get c k + (if k = t then 1 else 0)"
  by (induction c) (auto simp: counter_get_def)

lemma counter_get_Nil: "counter_get [] k = 0"
  by (simp add: counter_get_def)

lemma keys_Nil: "keys [] = []"
  by (simp add: keys_def)

lemma keys_Cons: "keys ((k, n) # c) = k # keys c"
  by (simp add: keys_def)

lemma keys_counter_add: "set (keys (counter_add t c)) = insert t (set (keys c))"
proof (induction c)
  case Nil
  show ?case by (simp add: keys_Cons keys_Nil)
next
  case (Cons p c)
  obtain k n where p: "p = (k, n)" by (cases p)
  show ?case using Cons by (auto simp: p keys_Cons)
qed

lemma counter_get_fold:
  "counter_get (fold counter_add ts c) k = counter_get c k + count_list ts k"
  by (induction ts arbitrary: c) (auto simp: counter_get_add)

lemma keys_fold: "set (keys (fold counter_add ts c)) = set ts \<union> set (keys c)"
  by (induction ts arbitrary: c) (auto simp: keys_counter_add)

lemma counter_get_Counter: "counter_get (Counter ts) k = count_list ts k"
  by (simp add: Counter_def counter_get_fold counter_get_Nil)

lemma keys_Counter: "set (keys (Counter ts)) = set ts"
  by (simp add: Counter_def keys_fold keys_Nil)

section \<open>The loop of \<open>Millar.dist\<close> in closed form\<close>

lemma py_log_2: "py_log 2 = Inr (ln 2)"
  by (simp add: py_log_def)

lemma guarded_val_ok:
  assumes "cnt \<le> n" "0 < n"
  shows "guarded_val cnt n = Inr (if cnt = 0 then 0 else real cnt * ln (real cnt / real n))"
  using assms by (simp add: guarded_val_def py_truediv_def py_log_def bind_err_def)

lemma millar_term_ok:
  assumes "0 < counter_get s tok + counter_get t tok"
  shows "millar_term s t (ln 2) tok = Inr (contribution (counter_get s tok) (counter_get t tok))"
proof -
  let ?a = "counter_get s tok" and ?b = "counter_get t tok"
  have ga: "guarded_val ?a (?a + ?b) = Inr (if ?a = 0 then 0 else real ?a * ln (real ?a / real (?a + ?b)))"
    using assms by (intro guarded_val_ok) simp_all
  have gb: "guarded_val ?b (?a + ?b) = Inr (if ?b = 0 then 0 else real ?b * ln (real ?b / real (?a + ?b)))"
    using assms by (intro guarded_val_ok) simp_all
  have "?a + ?b \<noteq> 0" using assms by simp
  then have nz: "real (?a + ?b) \<noteq> 0" by (simp only: of_nat_eq_0_iff not_False_eq_True)
  have "millar_term s t (ln 2) tok =
        py_truediv ((if ?a = 0 then 0 else real ?a * ln (real ?a / real (?a + ?b)))
                    + (if ?b = 0 then 0 else real ?b * ln (real ?b / real (?a + ?b)))
                    + real (?a + ?b) * ln 2) (real (?a + ?b))"
    unfolding millar_term_def Let_def ga gb bind_err_def by simp
  also have "\<dots> = Inr (contribution ?a ?b)"
    unfolding py_truediv_def contribution_def using nz by (simp only: if_False)
  finally show ?thesis .
qed

lemma millar_loop_ok:
  assumes "\<forall>tok\<in>set al. 0 < counter_get s tok + counter_get t tok"
  shows "millar_loop s t (ln 2) al score =
         Inr (score + sum_list (map (\<lambda>tok. contribution (counter_get s tok) (counter_get t tok)) al))"
  using assms
proof (induction al arbitrary: score)
  case Nil
  show ?case by simp
next
  case (Cons tok rest)
  have "millar_term s t (ln 2) tok = Inr (contribution (counter_get s tok) (counter_get t tok))"
    using Cons.prems by (intro millar_term_ok) simp
  moreover have "\<forall>k\<in>set rest. 0 < counter_get s k + counter_get t k"
    using Cons.prems by simp
  ultimately show ?case using Cons.IH by (simp add: add.assoc)
qed

lemma set_alphabet_of: "set (alphabet_of (Counter xs) (Counter ys)) = set xs \<union> set ys"
  by (simp add: alphabet_of_def keys_Counter)

lemma distinct_alphabet_of: "distinct (alphabet_of c d)"
  by (simp add: alphabet_of_def)

lemma alphabet_count_pos:
  assumes "tok \<in> set (alphabet_of (Counter xs) (Counter ys))"
  shows "0 < counter_get (Counter xs) tok + counter_get (Counter ys) tok"
proof -
  have "tok \<in> set xs \<or> tok \<in> set ys"
    using assms by (simp add: set_alphabet_of)
  then have "count_list xs tok \<noteq> 0 \<or> count_list ys tok \<noteq> 0"
    by (simp add: count_list_0_iff)
  then show ?thesis by (auto simp: counter_get_Counter)
qed

lemma millar_dist_list:
  "millar_dist tokenizer src tar =
   Inr (clamp (sum_list (map (\<lambda>tok. contribution (count_list (tokenizer tar) tok) (count_list (tokenizer src) tok))
                 (alphabet_of (Counter (tokenizer tar)) (Counter (tokenizer src))))))"
proof -
  let ?s = "Counter (tokenizer tar)" and ?t = "Counter (tokenizer src)"
  have "\<forall>tok\<in>set (alphabet_of ?s ?t). 0 < counter_get ?s tok + counter_get ?t tok"
  proof (rule ballI)
    fix tok assume "tok \<in> set (alphabet_of ?s ?t)"
    then show "0 < counter_get ?s tok + counter_get ?t tok" by (rule alphabet_count_pos)
  qed
  then have "millar_loop ?s ?t (ln 2) (alphabet_of ?s ?t) 0 =
     Inr (0 + sum_list (map (\<lambda>tok. contribution (counter_get ?s tok) (counter_get ?t tok)) (alphabet_of ?s ?t)))"
    by (rule millar_loop_ok)
  then show ?thesis
    by (simp add: millar_dist_def tokenize_def Let_def py_log_2 bind_err_def clamp_def counter_get_Counter)
qed

lemma millar_dist_set:
  "millar_dist tokenizer src tar =
   Inr (clamp (\<Sum>tok\<in>set (tokenizer src) \<union> set (tokenizer tar).
                 contribution (count_list (tokenizer tar) tok) (count_list (tokenizer src) tok)))"
  by (simp add: millar_dist_list sum_list_distinct_conv_sum_set distinct_alphabet_of set_alphabet_of Un_commute)

text \<open>
  The iteration order of a Python set is not specified. The loop gives the same score
  for every duplicate-free enumeration of the alphabet, so the order chosen by
  \<open>alphabet_of\<close> does not matter.
\<close>

lemma millar_loop_any_order:
  assumes "distinct al"
    and "set al = set (alphabet_of (Counter xs) (Counter ys))"
  shows "millar_loop (Counter xs) (Counter ys) (ln 2) al score
         = millar_loop (Counter xs) (Counter ys) (ln 2) (alphabet_of (Counter xs) (Counter ys)) score"
proof -
  let ?s = "Counter xs" and ?t = "Counter ys"
  let ?f = "\<lambda>tok. contribution (counter_get ?s tok) (counter_get ?t tok)"
  have pos: "\<forall>tok\<in>set (alphabet_of ?s ?t). 0 < counter_get ?s tok + counter_get ?t tok"
  proof (rule ballI)
    fix tok assume "tok \<in> set (alphabet_of ?s ?t)"
    then show "0 < counter_get ?s tok + counter_get ?t tok" by (rule alphabet_count_pos)
  qed
  then have pos': "\<forall>tok\<in>set al. 0 < counter_get ?s tok + counter_get ?t tok"
    using assms(2) by simp
  have "sum_list (map ?f al) = sum ?f (set al)"
    using assms(1) by (rule sum_list_distinct_conv_sum_set)
  also have "\<dots> = sum ?f (set (alphabet_of ?s ?t))"
    using assms(2) by simp
  also have "\<dots> = sum_list (map ?f (alphabet_of ?s ?t))"
    using distinct_alphabet_of by (rule sum_list_distinct_conv_sum_set [symmetric])
  finally show ?thesis
    by (simp add: millar_loop_ok [OF pos] millar_loop_ok [OF pos'])
qed

lemma contribution_commute: "contribution a b = contribution b a"
  by (simp add: contribution_def add.commute)

lemma contribution_equal: "contribution a a = 0"
proof (cases "a = 0")
  case True
  then show ?thesis by (simp add: contribution_def)
next
  case False
  then have pos: "0 < real a" by simp
  have "real a / real (a + a) = real a / (2 * real a)" by simp
  also have "\<dots> = 1 / 2" using pos by simp
  finally have "ln (real a / real (a + a)) = ln (1 / 2)" by (rule arg_cong)
  also have "\<dots> = - ln 2" by (simp add: ln_div)
  finally have l: "ln (real a / real (a + a)) = - ln 2" .
  show ?thesis unfolding contribution_def l using False by (simp add: algebra_simps)
qed


lemma contribution_only_left: "b = 0 \<Longrightarrow> 0 < a \<Longrightarrow> contribution a b = ln 2"
  by (simp add: contribution_def)

lemma contribution_only_right: "a = 0 \<Longrightarrow> 0 < b \<Longrightarrow> contribution a b = ln 2"
  by (simp add: contribution_def)

lemma contribution_same: "a = b \<Longrightarrow> contribution a b = 0"
  by (simp add: contribution_equal)

section \<open>Rounding to double precision\<close>

lemma round_even_eqI:
  assumes "\<bar>y - of_int m\<bar> < 1 / 2"
  shows "round_even y = m"
proof (cases "of_int m \<le> y")
  case True
  then have "\<lfloor>y\<rfloor> = m" using assms by (intro floor_unique) (auto simp: abs_if split: if_splits)
  then show ?thesis using assms True by (simp add: round_even_def Let_def)
next
  case False
  then have f: "\<lfloor>y\<rfloor> = m - 1" using assms by (intro floor_unique) (auto simp: abs_if split: if_splits)
  have "1 / 2 < y - of_int (m - 1)" using assms False by (auto simp: abs_if split: if_splits)
  then show ?thesis unfolding round_even_def Let_def f by simp
qed

lemma round_even_of_int: "round_even (of_int m) = m"
  by (rule round_even_eqI) simp

lemma round_even_ge:
  assumes "of_int m \<le> y"
  shows "m \<le> round_even y"
proof -
  have "m \<le> \<lfloor>y\<rfloor>" using assms by (simp add: le_floor_iff)
  then show ?thesis by (auto simp: round_even_def Let_def)
qed

lemma round_even_le:
  assumes "y \<le> of_int m"
  shows "round_even y \<le> m"
proof (cases "y = of_int m")
  case True
  then show ?thesis by (simp add: round_even_of_int)
next
  case False
  then have "y < of_int m" using assms by simp
  then have "\<lfloor>y\<rfloor> < m" by (simp add: floor_less_iff)
  then show ?thesis by (auto simp: round_even_def Let_def)
qed

lemma mantissa_range:
  assumes "x \<noteq> 0"
  shows "2 ^ 52 \<le> \<bar>x\<bar> / 2 powr of_int (ulp_exp x)"
    and "\<bar>x\<bar> / 2 powr of_int (ulp_exp x) < 2 ^ 53"
proof -
  let ?k = "\<lfloor>log 2 \<bar>x\<bar>\<rfloor>"
  have pos: "0 < \<bar>x\<bar>" using assms by simp
  have lo: "2 powr of_int ?k \<le> \<bar>x\<bar>"
    using pos by (simp add: powr_le_iff)
  have hi: "\<bar>x\<bar> < 2 powr (of_int ?k + 1)"
    using pos by (simp add: less_powr_iff)
  have e: "(2::real) powr of_int (ulp_exp x) = 2 powr of_int ?k / 2 ^ 52"
    by (simp add: ulp_exp_def powr_diff)
  have e2: "(2::real) powr (of_int ?k + 1) = 2 * 2 powr of_int ?k"
    by (simp add: powr_add)
  have p: "(0::real) < 2 powr of_int ?k" by simp
  show "2 ^ 52 \<le> \<bar>x\<bar> / 2 powr of_int (ulp_exp x)"
    unfolding e using lo p by (simp add: field_simps)
  show "\<bar>x\<bar> / 2 powr of_int (ulp_exp x) < 2 ^ 53"
    unfolding e using hi p unfolding e2 by (simp add: field_simps)
qed

lemma ulp_exp_eqI:
  assumes "0 < x" "2 ^ 52 \<le> x / 2 powr of_int e" "x / 2 powr of_int e < 2 ^ 53"
  shows "ulp_exp x = e"
proof -
  have p: "(0::real) < 2 powr of_int e" by simp
  have lo: "2 powr (of_int (e + 52)) \<le> x"
    using assms(2) p by (simp add: powr_add field_simps)
  have hi: "x < 2 powr (of_int (e + 52) + 1)"
    using assms(3) p by (simp add: powr_add field_simps)
  have "\<lfloor>log 2 x\<rfloor> = e + 52"
  proof (rule floor_unique)
    show "of_int (e + 52) \<le> log 2 x" using lo assms(1) by (simp add: le_log_iff)
    show "log 2 x < of_int (e + 52) + 1" using hi assms(1) by (simp add: log_less_iff)
  qed
  then show ?thesis using assms(1) by (simp add: ulp_exp_def)
qed

lemma fl_eqI:
  assumes "0 < x" "2 ^ 52 \<le> x / 2 powr of_int e" "x / 2 powr of_int e < 2 ^ 53"
    and "\<bar>x / 2 powr of_int e - of_int m\<bar> < 1 / 2"
  shows "fl x = of_int m * 2 powr of_int e"
proof -
  have e: "ulp_exp x = e" using assms(1-3) by (rule ulp_exp_eqI)
  have "round_even (x / 2 powr of_int e) = m" using assms(4) by (rule round_even_eqI)
  then show ?thesis using assms(1) e by (simp add: fl_def)
qed

lemma fl_0: "fl 0 = 0"
  by (simp add: fl_def)

lemma fl_minus: "fl (- x) = - fl x"
  by (simp add: fl_def ulp_exp_def)

lemma ulp_exp_double: "x \<noteq> 0 \<Longrightarrow> ulp_exp (2 * x) = ulp_exp x + 1"
proof -
  assume "x \<noteq> 0"
  then have "log 2 \<bar>2 * x\<bar> = 1 + log 2 \<bar>x\<bar>"
    by (simp add: abs_mult log_mult)
  then show ?thesis by (simp add: ulp_exp_def)
qed

lemma fl_double: "fl (2 * x) = 2 * fl x"
proof (cases "x = 0")
  case True
  then show ?thesis by (simp add: fl_0)
next
  case False
  have p: "(2::real) powr of_int (ulp_exp x + 1) = 2 * 2 powr of_int (ulp_exp x)"
    by (simp add: powr_add)
  have e: "ulp_exp (2 * x) = ulp_exp x + 1" using False by (rule ulp_exp_double)
  have m: "\<bar>2 * x\<bar> / (2 * 2 powr of_int (ulp_exp x)) = \<bar>x\<bar> / 2 powr of_int (ulp_exp x)"
    by (simp add: abs_mult)
  have "fl (2 * x) = sgn x * (of_int (round_even (\<bar>x\<bar> / 2 powr of_int (ulp_exp x)))
                    * (2 * 2 powr of_int (ulp_exp x)))"
    using False unfolding fl_def e p m by (simp add: sgn_mult)
  also have "\<dots> = 2 * fl x" using False by (simp add: fl_def)
  finally show ?thesis .
qed

lemma fl_pos: "0 < x \<Longrightarrow> 0 < fl x"
proof -
  assume x: "0 < x"
  then have "2 ^ 52 \<le> \<bar>x\<bar> / 2 powr of_int (ulp_exp x)" by (intro mantissa_range) simp
  then have "of_int (2 ^ 52) \<le> \<bar>x\<bar> / 2 powr of_int (ulp_exp x)" by simp
  then have "2 ^ 52 \<le> round_even (\<bar>x\<bar> / 2 powr of_int (ulp_exp x))" by (rule round_even_ge)
  then have "0 < round_even (\<bar>x\<bar> / 2 powr of_int (ulp_exp x))" by simp
  then show ?thesis using x by (simp add: fl_def)
qed

lemma fl_idem_pos:
  assumes "0 < x"
  shows "fl (fl x) = fl x"
proof -
  let ?e = "ulp_exp x"
  let ?m = "round_even (\<bar>x\<bar> / 2 powr of_int ?e)"
  have x0: "x \<noteq> 0" using assms by simp
  have flx: "fl x = of_int ?m * 2 powr of_int ?e" using assms by (simp add: fl_def)
  have "of_int (2 ^ 52) \<le> \<bar>x\<bar> / 2 powr of_int ?e" using mantissa_range(1) [OF x0] by simp
  then have lo: "2 ^ 52 \<le> ?m" by (rule round_even_ge)
  have "\<bar>x\<bar> / 2 powr of_int ?e \<le> of_int (2 ^ 53)" using mantissa_range(2) [OF x0] by simp
  then have hi: "?m \<le> 2 ^ 53" by (rule round_even_le)
  have mpos: "0 < fl x" using assms by (rule fl_pos)
  show ?thesis
  proof (cases "?m = 2 ^ 53")
    case False
    then have lt: "?m < 2 ^ 53" using hi by simp
    have "fl (fl x) = of_int ?m * 2 powr of_int ?e"
    proof (rule fl_eqI)
      show "0 < fl x" by (rule mpos)
      have q: "fl x / 2 powr of_int ?e = of_int ?m" unfolding flx by simp
      show "2 ^ 52 \<le> fl x / 2 powr of_int ?e" unfolding q using lo
        by (metis of_int_le_iff of_int_numeral of_int_power)
      show "fl x / 2 powr of_int ?e < 2 ^ 53" unfolding q using lt
        by (metis of_int_less_iff of_int_numeral of_int_power)
      show "\<bar>fl x / 2 powr of_int ?e - of_int ?m\<bar> < 1 / 2" unfolding q by simp
    qed
    then show ?thesis by (simp add: flx)
  next
    case True
    have p: "(2::real) powr of_int (?e + 1) = 2 * 2 powr of_int ?e" by (simp add: powr_add)
    have flx': "fl x = 2 ^ 53 * 2 powr of_int ?e" unfolding flx True by simp
    have "fl (fl x) = of_int (2 ^ 52) * 2 powr of_int (?e + 1)"
    proof (rule fl_eqI)
      show "0 < fl x" by (rule mpos)
      have q: "fl x / 2 powr of_int (?e + 1) = 2 ^ 52" unfolding flx' p by simp
      show "2 ^ 52 \<le> fl x / 2 powr of_int (?e + 1)" unfolding q by simp
      show "fl x / 2 powr of_int (?e + 1) < 2 ^ 53" unfolding q by simp
      show "\<bar>fl x / 2 powr of_int (?e + 1) - of_int (2 ^ 52)\<bar> < 1 / 2" unfolding q by simp
    qed
    then show ?thesis unfolding flx' p by simp
  qed
qed

lemma fl_idem: "fl (fl x) = fl x"
proof (cases "x = 0")
  case True
  then show ?thesis by (simp add: fl_0)
next
  case False
  show ?thesis
  proof (cases "0 < x")
    case True
    then show ?thesis by (rule fl_idem_pos)
  next
    case f: False
    then have "0 < - x" using False by simp
    then have "fl (fl (- x)) = fl (- x)" by (rule fl_idem_pos)
    then show ?thesis by (simp add: fl_minus)
  qed
qed

lemma fl_dyadic:
  assumes "0 < x" "2 ^ 52 \<le> x * 2 ^ k" "x * 2 ^ k < 2 ^ 53"
    and "\<bar>x * 2 ^ k - of_int m\<bar> < 1 / 2"
  shows "fl x = of_int m / 2 ^ k"
proof -
  have p: "(2::real) powr of_int (- int k) = 1 / 2 ^ k"
    by (simp add: powr_minus powr_realpow field_simps)
  have q: "x / 2 powr of_int (- int k) = x * 2 ^ k"
    unfolding p by simp
  have "fl x = of_int m * 2 powr of_int (- int k)"
    by (rule fl_eqI) (use assms in \<open>simp_all only: q\<close>)
  then show ?thesis unfolding p by simp
qed

lemma exp_ge_even_partial:
  assumes "even n"
  shows "(\<Sum>m<n. x ^ m / fact m) \<le> exp (x::real)"
proof -
  obtain t where "exp x = (\<Sum>m<n. x ^ m / fact m) + (exp t / fact n) * x ^ n"
    using Maclaurin_exp_le [of x n] by blast
  moreover have "0 \<le> (exp t / fact n) * x ^ n"
    using assms by (simp add: zero_le_even_power)
  ultimately show ?thesis by simp
qed

lemma ln_gt_by_exp:
  assumes "0 < (y::real)" "1 / y < (\<Sum>m<18. (- lo) ^ m / fact m)"
  shows "lo < ln y"
proof -
  have ev: "even (18::nat)" by simp
  have "(\<Sum>m<18. (- lo) ^ m / fact m) \<le> exp (- lo)"
    using ev by (rule exp_ge_even_partial)
  with assms(2) have "1 / y < exp (- lo)" by (rule less_le_trans)
  then have "exp lo < y" using assms(1) by (simp add: exp_minus field_simps)
  then have "exp lo < exp (ln y)" using assms(1) by simp
  then show ?thesis by (simp only: exp_less_cancel_iff)
qed

lemma ln_lt_by_exp:
  assumes "0 < (y::real)" "y < (\<Sum>m<18. hi ^ m / fact m)"
  shows "ln y < hi"
proof -
  have ev: "even (18::nat)" by simp
  have "(\<Sum>m<18. hi ^ m / fact m) \<le> exp hi"
    using ev by (rule exp_ge_even_partial)
  with assms(2) have "y < exp hi" by (rule less_le_trans)
  then have "exp (ln y) < exp hi" using assms(1) by simp
  then show ?thesis by (simp only: exp_less_cancel_iff)
qed

section \<open>Rounded values used in the examples\<close>

lemma round_even_half:
  "round_even (of_int f + 1 / 2) = (if even f then f else f + 1)"
proof -
  have "\<lfloor>of_int f + (1 / 2 :: real)\<rfloor> = f" by (intro floor_unique) simp_all
  then show ?thesis by (simp add: round_even_def Let_def)
qed

lemma fl_dyadic_tie:
  assumes "0 < x" "2 ^ 52 \<le> x * 2 ^ k" "x * 2 ^ k < 2 ^ 53"
    and "x * 2 ^ k = of_int f + 1 / 2"
  shows "fl x = of_int (if even f then f else f + 1) / 2 ^ k"
proof -
  have p: "(2::real) powr of_int (- int k) = 1 / 2 ^ k"
    by (simp add: powr_minus powr_realpow field_simps)
  have q: "x / 2 powr of_int (- int k) = x * 2 ^ k"
    unfolding p by simp
  have e: "ulp_exp x = - int k"
    by (rule ulp_exp_eqI) (use assms in \<open>simp_all only: q\<close>)
  have "round_even (x * 2 ^ k) = (if even f then f else f + 1)"
    unfolding assms(4) by (rule round_even_half)
  then show ?thesis using assms(1) unfolding fl_def e q p by simp
qed

lemma fl_val_0: "fl (1178250072640161 / 9007199254740992) = 1178250072640161 / 9007199254740992"
proof -
  have "fl (1178250072640161 / 9007199254740992) = of_int 4713000290560644 / 2 ^ 55"
    by (rule fl_dyadic) simp_all
  then show ?thesis by simp
qed

lemma fl_val_1: "fl (1 / 4) = 1 / 4"
proof -
  have "fl (1 / 4) = of_int 4503599627370496 / 2 ^ 54"
    by (rule fl_dyadic) simp_all
  then show ?thesis by simp
qed

lemma fl_val_2: "fl (1 / 2) = 1 / 2"
proof -
  have "fl (1 / 2) = of_int 4503599627370496 / 2 ^ 53"
    by (rule fl_dyadic) simp_all
  then show ?thesis by simp
qed

lemma fl_val_3: "fl (1178250072640161 / 2251799813685248) = 1178250072640161 / 2251799813685248"
proof -
  have "fl (1178250072640161 / 2251799813685248) = of_int 4713000290560644 / 2 ^ 53"
    by (rule fl_dyadic) simp_all
  then show ?thesis by simp
qed

lemma fl_val_4: "fl (6243314768165359 / 9007199254740992) = 6243314768165359 / 9007199254740992"
proof -
  have "fl (6243314768165359 / 9007199254740992) = of_int 6243314768165359 / 2 ^ 53"
    by (rule fl_dyadic) simp_all
  then show ?thesis by simp
qed

lemma fl_val_5: "fl (1146233570717859 / 1653665488175104) = 390207173010335 / 562949953421312"
proof -
  have "fl (1146233570717859 / 1653665488175104) = of_int 6243314768165360 / 2 ^ 53"
    by (rule fl_dyadic) simp_all
  then show ?thesis by simp
qed

lemma fl_val_6: "fl (3 / 4) = 3 / 4"
proof -
  have "fl (3 / 4) = of_int 6755399441055744 / 2 ^ 53"
    by (rule fl_dyadic) simp_all
  then show ?thesis by simp
qed

lemma fl_val_7: "fl (463847802550345 / 562949953421312) = 463847802550345 / 562949953421312"
proof -
  have "fl (463847802550345 / 562949953421312) = of_int 7421564840805520 / 2 ^ 53"
    by (rule fl_dyadic) simp_all
  then show ?thesis by simp
qed

lemma fl_val_8: "fl (7773629245770075 / 9007199254740992) = 7773629245770075 / 9007199254740992"
proof -
  have "fl (7773629245770075 / 9007199254740992) = of_int 7773629245770075 / 2 ^ 53"
    by (rule fl_dyadic) simp_all
  then show ?thesis by simp
qed

lemma fl_val_9: "fl (1) = 1"
proof -
  have "fl (1) = of_int 4503599627370496 / 2 ^ 52"
    by (rule fl_dyadic) simp_all
  then show ?thesis by simp
qed

lemma fl_val_10: "fl (6243314768165359 / 4503599627370496) = 6243314768165359 / 4503599627370496"
proof -
  have "fl (6243314768165359 / 4503599627370496) = of_int 6243314768165359 / 2 ^ 52"
    by (rule fl_dyadic) simp_all
  then show ?thesis by simp
qed

lemma fl_val_11: "fl (13664879608970879 / 9007199254740992) = 106756871945085 / 70368744177664"
proof -
  have "fl (13664879608970879 / 9007199254740992) = of_int (if even (6832439804485439::int) then 6832439804485439 else 6832439804485439 + 1) / 2 ^ 52"
    by (rule fl_dyadic_tie) simp_all
  then show ?thesis by simp
qed

lemma fl_val_12: "fl (4682486076124019 / 2251799813685248) = 4682486076124019 / 2251799813685248"
proof -
  have "fl (4682486076124019 / 2251799813685248) = of_int 4682486076124019 / 2 ^ 51"
    by (rule fl_dyadic) simp_all
  then show ?thesis by simp
qed

lemma fl_val_13: "fl (18729944304496077 / 9007199254740992) = 4682486076124019 / 2251799813685248"
proof -
  have "fl (18729944304496077 / 9007199254740992) = of_int 4682486076124019 / 2 ^ 51"
    by (rule fl_dyadic) simp_all
  then show ?thesis by simp
qed

lemma fl_val_14: "fl (19908194377136237 / 9007199254740992) = 4977048594284059 / 2251799813685248"
proof -
  have "fl (19908194377136237 / 9007199254740992) = of_int 4977048594284059 / 2 ^ 51"
    by (rule fl_dyadic) simp_all
  then show ?thesis by simp
qed

lemma fl_val_15: "fl (19908194377136239 / 9007199254740992) = 1244262148571015 / 562949953421312"
proof -
  have "fl (19908194377136239 / 9007199254740992) = of_int 4977048594284060 / 2 ^ 51"
    by (rule fl_dyadic) simp_all
  then show ?thesis by simp
qed

lemma fl_val_16: "fl (20260258782100793 / 9007199254740992) = 2532532347762599 / 1125899906842624"
proof -
  have "fl (20260258782100793 / 9007199254740992) = of_int 5065064695525198 / 2 ^ 51"
    by (rule fl_dyadic) simp_all
  then show ?thesis by simp
qed

lemma fl_val_17: "fl (6243314768165359 / 2251799813685248) = 6243314768165359 / 2251799813685248"
proof -
  have "fl (6243314768165359 / 2251799813685248) = of_int 6243314768165359 / 2 ^ 51"
    by (rule fl_dyadic) simp_all
  then show ?thesis by simp
qed

lemma fl_val_18: "fl (26151509145301595 / 9007199254740992) = 6537877286325399 / 2251799813685248"
proof -
  have "fl (26151509145301595 / 9007199254740992) = of_int 6537877286325399 / 2 ^ 51"
    by (rule fl_dyadic) simp_all
  then show ?thesis by simp
qed

lemma fl_val_19: "fl (26151509145301599 / 9007199254740992) = 817234660790675 / 281474976710656"
proof -
  have "fl (26151509145301599 / 9007199254740992) = of_int 6537877286325400 / 2 ^ 51"
    by (rule fl_dyadic) simp_all
  then show ?thesis by simp
qed

lemma fl_val_20: "fl (293435794103771873 / 9007199254740992) = 1146233570717859 / 35184372088832"
proof -
  have "fl (293435794103771873 / 9007199254740992) = of_int 4584934282871436 / 2 ^ 47"
    by (rule fl_dyadic) simp_all
  then show ?thesis by simp
qed

lemma fl_val_21: "fl (1146233570717859 / 35184372088832) = 1146233570717859 / 35184372088832"
proof -
  have "fl (1146233570717859 / 35184372088832) = of_int 4584934282871436 / 2 ^ 47"
    by (rule fl_dyadic) simp_all
  then show ?thesis by simp
qed

lemmas fl_vals = fl_val_0 fl_val_1 fl_val_2 fl_val_3 fl_val_4 fl_val_5 fl_val_6 fl_val_7 fl_val_8 fl_val_9 fl_val_10 fl_val_11 fl_val_12 fl_val_13 fl_val_14 fl_val_15 fl_val_16 fl_val_17 fl_val_18 fl_val_19 fl_val_20 fl_val_21

section \<open>Two logarithms to double precision\<close>

text \<open>
  The Taylor sums of \<open>exp\<close> with an even number of terms are lower bounds of \<open>exp\<close>;
  18 terms at the two ends of a rounding interval bracket \<open>ln 2\<close> and \<open>ln (4 / 3)\<close>.
\<close>

lemma ln2_lower: "12486629536330717 / 2 ^ 54 < ln (2::real)"
  by (rule ln_gt_by_exp) (simp_all add: lessThan_nat_numeral fact_numeral power_divide)

lemma ln2_upper: "ln (2::real) < 12486629536330719 / 2 ^ 54"
  by (rule ln_lt_by_exp) (simp_all add: lessThan_nat_numeral fact_numeral power_divide)


lemma ln43_lower: "10364838994360099 / 2 ^ 55 < ln (4 / 3 :: real)"
  by (rule ln_gt_by_exp) (simp_all add: lessThan_nat_numeral fact_numeral power_divide)

lemma ln43_upper: "ln (4 / 3 :: real) < 10364838994360101 / 2 ^ 55"
  by (rule ln_lt_by_exp) (simp_all add: lessThan_nat_numeral fact_numeral power_divide)

lemma binary64_sel:
  "fadd binary64 x y = fl (x + y)" "fmul binary64 x y = fl (x * y)"
  "fdiv binary64 x y = fl (x / y)" "flog binary64 x = fl (ln x)"
  by (simp_all add: binary64_def)

lemma fl_ln2: "fl (ln 2) = 6243314768165359 / 9007199254740992"
proof -
  have "fl (ln 2) = of_int 6243314768165359 / 2 ^ 53"
  proof (rule fl_dyadic)
    show "0 < ln (2::real)" by simp
    show "2 ^ 52 \<le> ln (2::real) * 2 ^ 53" using ln2_lower by simp
    show "ln (2::real) * 2 ^ 53 < 2 ^ 53" using ln2_upper by simp
    show "\<bar>ln (2::real) * 2 ^ 53 - of_int 6243314768165359\<bar> < 1 / 2"
    proof (rule abs_less_iff [THEN iffD2], rule conjI)
      show "ln (2::real) * 2 ^ 53 - of_int 6243314768165359 < 1 / 2"
        using ln2_upper by simp
      show "- (ln (2::real) * 2 ^ 53 - of_int 6243314768165359) < 1 / 2"
        using ln2_lower by simp
    qed
  qed
  then show ?thesis by simp
qed

lemma fl_ln43: "fl (ln (4 / 3)) = 2591209748590025 / 9007199254740992"
proof -
  have "fl (ln (4 / 3)) = of_int 5182419497180050 / 2 ^ 54"
  proof (rule fl_dyadic)
    show "0 < ln (4 / 3 :: real)" by simp
    show "2 ^ 52 \<le> ln (4 / 3 :: real) * 2 ^ 54" using ln43_lower by simp
    show "ln (4 / 3 :: real) * 2 ^ 54 < 2 ^ 53" using ln43_upper by simp
    show "\<bar>ln (4 / 3 :: real) * 2 ^ 54 - of_int 5182419497180050\<bar> < 1 / 2"
    proof (rule abs_less_iff [THEN iffD2], rule conjI)
      show "ln (4 / 3 :: real) * 2 ^ 54 - of_int 5182419497180050 < 1 / 2"
        using ln43_upper by simp
      show "- (ln (4 / 3 :: real) * 2 ^ 54 - of_int 5182419497180050) < 1 / 2"
        using ln43_lower by simp
    qed
  qed
  then show ?thesis by simp
qed

lemma fl_ln_half: "fl (ln (1 / 2)) = - (6243314768165359 / 9007199254740992)"
proof -
  have "ln (1 / 2 :: real) = - ln 2" by (simp add: ln_div)
  then show ?thesis by (simp only: fl_minus fl_ln2)
qed

lemma fl_ln_quarter: "fl (ln (1 / 4)) = - (6243314768165359 / 4503599627370496)"
proof -
  have "ln (4::real) = ln (2 * 2)" by simp
  also have "\<dots> = ln 2 + ln 2" by (rule ln_mult_pos) simp_all
  also have "\<dots> = 2 * ln 2" by simp
  finally have "ln (1 / 4 :: real) = - (2 * ln 2)" by (simp add: ln_div)
  then show ?thesis by (simp add: fl_minus fl_double fl_ln2)
qed

lemma fl_ln_three_quarters: "fl (ln (3 / 4)) = - (2591209748590025 / 9007199254740992)"
proof -
  have "ln (3 / 4 :: real) = - ln (4 / 3)" by (simp add: ln_div)
  then show ?thesis by (simp only: fl_minus fl_ln43)
qed

section \<open>\<open>Millar.dist\<close> in double precision\<close>

lemma fl_1: "fl 1 = 1"
  using fl_vals by simp

lemma count_list_replicate: "count_list (replicate n x) x = n"
  by (induction n) simp_all

lemma guarded_val_binary64_all:
  assumes "0 < c"
  shows "guarded_val_in binary64 c c = Inr 0"
proof -
  have "real c / real c = 1" using assms by simp
  then show ?thesis using assms
    by (simp add: guarded_val_in_def truediv_in_def log_in_def bind_err_def binary64_sel fl_1 fl_0)
qed

lemma guarded_val_in_zero: "guarded_val_in ar 0 n = Inr 0"
  by (simp add: guarded_val_in_def)

lemma one_sided_binary64:
  assumes "0 < counter_get s tok" "counter_get t tok = 0"
  shows "millar_term_in binary64 s t l tok
           = Inr (fl (fl (real (counter_get s tok) * l) / real (counter_get s tok)))"
    and "millar_term_in binary64 t s l tok
           = Inr (fl (fl (real (counter_get s tok) * l) / real (counter_get s tok)))"
proof -
  let ?c = "counter_get s tok"
  have nz: "real ?c \<noteq> 0" using assms(1) by simp
  have g: "guarded_val_in binary64 ?c ?c = Inr 0" using assms(1) by (rule guarded_val_binary64_all)
  show "millar_term_in binary64 s t l tok = Inr (fl (fl (real ?c * l) / real ?c))"
    unfolding millar_term_in_def Let_def assms(2) add_0_right g guarded_val_in_zero bind_err_def
    using nz by (simp add: truediv_in_def binary64_sel fl_0 fl_idem)
  show "millar_term_in binary64 t s l tok = Inr (fl (fl (real ?c * l) / real ?c))"
    unfolding millar_term_in_def Let_def assms(2) add_0_left g guarded_val_in_zero bind_err_def
    using nz by (simp add: truediv_in_def binary64_sel fl_0 fl_idem)
qed

lemma fl_half: "fl (1 / 2) = 1 / 2"
  using fl_vals by simp

lemma equal_counts_binary64:
  assumes "0 < counter_get s tok" "counter_get s tok = counter_get t tok"
  shows "millar_term_in binary64 s t (flog binary64 2) tok = Inr 0"
proof -
  let ?c = "counter_get s tok"
  let ?p = "fl (real ?c * fl (ln 2))"
  have half: "real ?c / real (?c + ?c) = 1 / 2" using assms(1) by simp
  have "ln (1 / 2 :: real) = - ln 2" by (simp add: ln_div)
  then have lnh: "fl (ln (1 / 2)) = - fl (ln 2)" by (simp only: fl_minus)
  have g: "guarded_val_in binary64 ?c (?c + ?c) = Inr (- ?p)"
    using assms(1) unfolding guarded_val_in_def truediv_in_def log_in_def bind_err_def binary64_sel
      half fl_half
    by (simp add: lnh fl_minus)
  have s1: "fl (- ?p + - ?p) = - (2 * ?p)"
  proof -
    have "- ?p + - ?p = 2 * (- ?p)" by simp
    then have "fl (- ?p + - ?p) = 2 * fl (- ?p)" by (simp only: fl_double)
    then show ?thesis by (simp add: fl_minus fl_idem)
  qed
  have s2: "fl (real (?c + ?c) * fl (ln 2)) = 2 * ?p"
  proof -
    have "real (?c + ?c) * fl (ln 2) = 2 * (real ?c * fl (ln 2))" by simp
    then show ?thesis by (simp only: fl_double)
  qed
  have s3: "fl (- (2 * ?p)) = - (2 * ?p)"
    by (simp only: fl_minus fl_double fl_idem)
  have "2 * real ?c * fl (ln 2) = 2 * (real ?c * fl (ln 2))" by simp
  then have s4: "fl (2 * real ?c * fl (ln 2)) = 2 * ?p" by (simp only: fl_double)
  have nz: "real (?c + ?c) \<noteq> 0" using assms(1) by simp
  show ?thesis
    unfolding millar_term_in_def Let_def assms(2) [symmetric] g bind_err_def
    using nz by (simp add: truediv_in_def binary64_sel s1 s2 s3 s4 fl_0)
qed

lemma one_sided_47:
  "millar_term_in binary64 (Counter (replicate 47 ''aa'')) (Counter []) (flog binary64 2) ''aa''
     = Inr (390207173010335 / 562949953421312)"
proof -
  have c: "counter_get (Counter (replicate 47 ''aa'')) ''aa'' = 47"
    by (simp only: counter_get_Counter count_list_replicate)
  have z: "counter_get (Counter []) ''aa'' = 0"
    by (simp add: counter_get_Counter)
  have "0 < counter_get (Counter (replicate 47 ''aa'')) ''aa''" unfolding c by simp
  from one_sided_binary64(1) [OF this z, of "flog binary64 2"]
  show ?thesis unfolding c by (simp add: binary64_sel fl_ln2 fl_vals)
qed

lemma log2_binary64: "log_in binary64 2 = Inr (6243314768165359 / 9007199254740992)"
  by (simp add: log_in_def binary64_sel fl_ln2)

lemma term_one_sided_1:
  assumes "counter_get s tok = 1" "counter_get t tok = 0"
  shows "millar_term_in binary64 s t (6243314768165359 / 9007199254740992) tok
           = Inr (6243314768165359 / 9007199254740992)"
    and "millar_term_in binary64 t s (6243314768165359 / 9007199254740992) tok
           = Inr (6243314768165359 / 9007199254740992)"
proof -
  have p: "0 < counter_get s tok" using assms(1) by simp
  show "millar_term_in binary64 s t (6243314768165359 / 9007199254740992) tok
           = Inr (6243314768165359 / 9007199254740992)"
    unfolding one_sided_binary64(1) [OF p assms(2)] assms(1) by (simp add: fl_vals)
  show "millar_term_in binary64 t s (6243314768165359 / 9007199254740992) tok
           = Inr (6243314768165359 / 9007199254740992)"
    unfolding one_sided_binary64(2) [OF p assms(2)] assms(1) by (simp add: fl_vals)
qed

lemma term_equal_1:
  assumes "counter_get s tok = 1" "counter_get t tok = 1"
  shows "millar_term_in binary64 s t (6243314768165359 / 9007199254740992) tok = Inr 0"
proof -
  have "millar_term_in binary64 s t (flog binary64 2) tok = Inr 0"
    by (rule equal_counts_binary64) (simp_all add: assms)
  then show ?thesis by (simp add: binary64_sel fl_ln2)
qed

lemma term_1_3:
  assumes "counter_get s tok = 1" "counter_get t tok = 3"
  shows "millar_term_in binary64 s t (6243314768165359 / 9007199254740992) tok
           = Inr (1178250072640161 / 9007199254740992)"
    and "millar_term_in binary64 t s (6243314768165359 / 9007199254740992) tok
           = Inr (1178250072640161 / 9007199254740992)"
  unfolding millar_term_in_def Let_def assms guarded_val_in_def truediv_in_def log_in_def
    bind_err_def binary64_sel
  by (simp_all add: fl_vals fl_minus fl_ln_quarter fl_ln_three_quarters)


lemma tokens_aaaa_aabb:
  "qgrams 2 (Some (CHR ''$'', CHR ''#'')) ''aaaa'' = [''$a'', ''aa'', ''aa'', ''aa'', ''a#'']"
  "qgrams 2 (Some (CHR ''$'', CHR ''#'')) ''aabb'' = [''$a'', ''aa'', ''ab'', ''bb'', ''b#'']"
  by code_simp+

lemma alphabet_aaaa_aabb:
  "alphabet_of (Counter [''$a'', ''aa'', ''ab'', ''bb'', ''b#''])
               (Counter [''$a'', ''aa'', ''aa'', ''aa'', ''a#''])
     = [''ab'', ''bb'', ''b#'', ''$a'', ''aa'', ''a#'']"
  "alphabet_of (Counter [''$a'', ''aa'', ''aa'', ''aa'', ''a#''])
               (Counter [''$a'', ''aa'', ''ab'', ''bb'', ''b#''])
     = [''a#'', ''$a'', ''aa'', ''ab'', ''bb'', ''b#'']"
  by code_simp+

lemma dist_aaaa_aabb:
  "millar_dist_in binary64 (qgrams 2 (Some (CHR ''$'', CHR ''#''))) ''aaaa'' ''aabb''
     = Inr (6537877286325399 / 2251799813685248)"
proof -
  let ?s = "Counter [''$a'', ''aa'', ''ab'', ''bb'', ''b#'']"
  let ?t = "Counter [''$a'', ''aa'', ''aa'', ''aa'', ''a#'']"
  let ?L = "6243314768165359 / 9007199254740992 :: real"
  have t1: "millar_term_in binary64 ?s ?t ?L ''ab'' = Inr ?L"
    by (rule term_one_sided_1(1)) (simp_all add: counter_get_Counter)
  have t2: "millar_term_in binary64 ?s ?t ?L ''bb'' = Inr ?L"
    by (rule term_one_sided_1(1)) (simp_all add: counter_get_Counter)
  have t3: "millar_term_in binary64 ?s ?t ?L ''b#'' = Inr ?L"
    by (rule term_one_sided_1(1)) (simp_all add: counter_get_Counter)
  have t4: "millar_term_in binary64 ?s ?t ?L ''$a'' = Inr 0"
    by (rule term_equal_1) (simp_all add: counter_get_Counter)
  have t5: "millar_term_in binary64 ?s ?t ?L ''aa'' = Inr (1178250072640161 / 9007199254740992)"
    by (rule term_1_3(1)) (simp_all add: counter_get_Counter)
  have t6: "millar_term_in binary64 ?s ?t ?L ''a#'' = Inr ?L"
    by (rule term_one_sided_1(2)) (simp_all add: counter_get_Counter)
  have "millar_loop_in binary64 ?s ?t ?L [''ab'', ''bb'', ''b#'', ''$a'', ''aa'', ''a#''] 0
          = Inr (6537877286325399 / 2251799813685248)"
    by (simp add: t1 t2 t3 t4 t5 t6 binary64_sel fl_vals)
  then show ?thesis
    unfolding millar_dist_in_def tokenize_def Let_def
    by (simp add: tokens_aaaa_aabb alphabet_aaaa_aabb log2_binary64 bind_err_def)
qed

lemma dist_aabb_aaaa:
  "millar_dist_in binary64 (qgrams 2 (Some (CHR ''$'', CHR ''#''))) ''aabb'' ''aaaa''
     = Inr (817234660790675 / 281474976710656)"
proof -
  let ?s = "Counter [''$a'', ''aa'', ''aa'', ''aa'', ''a#'']"
  let ?t = "Counter [''$a'', ''aa'', ''ab'', ''bb'', ''b#'']"
  let ?L = "6243314768165359 / 9007199254740992 :: real"
  have t1: "millar_term_in binary64 ?s ?t ?L ''a#'' = Inr ?L"
    by (rule term_one_sided_1(1)) (simp_all add: counter_get_Counter)
  have t2: "millar_term_in binary64 ?s ?t ?L ''$a'' = Inr 0"
    by (rule term_equal_1) (simp_all add: counter_get_Counter)
  have t3: "millar_term_in binary64 ?s ?t ?L ''aa'' = Inr (1178250072640161 / 9007199254740992)"
    by (rule term_1_3(2)) (simp_all add: counter_get_Counter)
  have t4: "millar_term_in binary64 ?s ?t ?L ''ab'' = Inr ?L"
    by (rule term_one_sided_1(2)) (simp_all add: counter_get_Counter)
  have t5: "millar_term_in binary64 ?s ?t ?L ''bb'' = Inr ?L"
    by (rule term_one_sided_1(2)) (simp_all add: counter_get_Counter)
  have t6: "millar_term_in binary64 ?s ?t ?L ''b#'' = Inr ?L"
    by (rule term_one_sided_1(2)) (simp_all add: counter_get_Counter)
  have "millar_loop_in binary64 ?s ?t ?L [''a#'', ''$a'', ''aa'', ''ab'', ''bb'', ''b#''] 0
          = Inr (817234660790675 / 281474976710656)"
    by (simp add: t1 t2 t3 t4 t5 t6 binary64_sel fl_vals)
  then show ?thesis
    unfolding millar_dist_in_def tokenize_def Let_def
    by (simp add: tokens_aaaa_aabb alphabet_aaaa_aabb log2_binary64 bind_err_def)
qed

section \<open>Totality and the final clamp\<close>

text \<open>
  Claim C5. Whatever the tokenizer and the two strings (over any character type),
  \<open>Millar.dist\<close> returns a number and raises nothing; for every token of the alphabet
  the divisor \<open>n_k\<close> is positive, and both guarded products are computed without
  \<open>math.log\<close> or the division raising.
\<close>

theorem millar_dist_total:
  "(\<exists>r. millar_dist tokenizer src tar = Inr r)
   \<and> (\<forall>tok \<in> set (alphabet_of (tar_tokens (tokenize tokenizer src tar))
                              (src_tokens (tokenize tokenizer src tar))).
        0 < counter_get (tar_tokens (tokenize tokenizer src tar)) tok
              + counter_get (src_tokens (tokenize tokenizer src tar)) tok
        \<and> (\<exists>v. guarded_val (counter_get (tar_tokens (tokenize tokenizer src tar)) tok)
                  (counter_get (tar_tokens (tokenize tokenizer src tar)) tok
                     + counter_get (src_tokens (tokenize tokenizer src tar)) tok) = Inr v)
        \<and> (\<exists>v. guarded_val (counter_get (src_tokens (tokenize tokenizer src tar)) tok)
                  (counter_get (tar_tokens (tokenize tokenizer src tar)) tok
                     + counter_get (src_tokens (tokenize tokenizer src tar)) tok) = Inr v))"
proof (intro conjI ballI)
  show "\<exists>r. millar_dist tokenizer src tar = Inr r"
    by (simp add: millar_dist_list)
next
  fix tok
  assume "tok \<in> set (alphabet_of (tar_tokens (tokenize tokenizer src tar))
                                 (src_tokens (tokenize tokenizer src tar)))"
  then have mem: "tok \<in> set (alphabet_of (Counter (tokenizer tar)) (Counter (tokenizer src)))"
    by (simp add: tokenize_def)
  let ?a = "counter_get (Counter (tokenizer tar)) tok"
  let ?b = "counter_get (Counter (tokenizer src)) tok"
  have pos: "0 < ?a + ?b" using mem by (rule alphabet_count_pos)
  have ga: "\<exists>v. guarded_val ?a (?a + ?b) = Inr v"
    using pos by (simp add: guarded_val_ok)
  have gb: "\<exists>v. guarded_val ?b (?a + ?b) = Inr v"
    using pos by (simp add: guarded_val_ok)
  show "0 < counter_get (tar_tokens (tokenize tokenizer src tar)) tok
              + counter_get (src_tokens (tokenize tokenizer src tar)) tok"
    using pos by (simp add: tokenize_def)
  show "\<exists>v. guarded_val (counter_get (tar_tokens (tokenize tokenizer src tar)) tok)
                  (counter_get (tar_tokens (tokenize tokenizer src tar)) tok
                     + counter_get (src_tokens (tokenize tokenizer src tar)) tok) = Inr v"
    using ga by (simp add: tokenize_def)
  show "\<exists>v. guarded_val (counter_get (src_tokens (tokenize tokenizer src tar)) tok)
                  (counter_get (tar_tokens (tokenize tokenizer src tar)) tok
                     + counter_get (src_tokens (tokenize tokenizer src tar)) tok) = Inr v"
    using gb by (simp add: tokenize_def)
qed

lemma alphabet_cat_hat:
  "alphabet_of (tar_tokens (tokenize (qgrams 2 None) ''cat'' ''hat''))
               (src_tokens (tokenize (qgrams 2 None) ''cat'' ''hat'')) = [''ha'', ''ca'', ''at'']"
  by code_simp

theorem millar_dist_total_witness:
  "''at'' \<in> set (alphabet_of (tar_tokens (tokenize (qgrams 2 None) ''cat'' ''hat''))
                              (src_tokens (tokenize (qgrams 2 None) ''cat'' ''hat'')))
   \<and> (\<exists>r. millar_dist (qgrams 2 None) ''cat'' ''hat'' = Inr r)
   \<and> 0 < counter_get (tar_tokens (tokenize (qgrams 2 None) ''cat'' ''hat'')) ''at''
           + counter_get (src_tokens (tokenize (qgrams 2 None) ''cat'' ''hat'')) ''at''"
proof -
  have mem: "''at'' \<in> set (alphabet_of (tar_tokens (tokenize (qgrams 2 None) ''cat'' ''hat''))
                              (src_tokens (tokenize (qgrams 2 None) ''cat'' ''hat'')))"
    by (simp add: alphabet_cat_hat)
  note t = millar_dist_total [of "qgrams 2 None" "''cat''" "''hat''"]
  from t have "\<exists>r. millar_dist (qgrams 2 None) ''cat'' ''hat'' = Inr r" by (rule conjunct1)
  moreover from t [THEN conjunct2, THEN bspec, OF mem]
  have "0 < counter_get (tar_tokens (tokenize (qgrams 2 None) ''cat'' ''hat'')) ''at''
           + counter_get (src_tokens (tokenize (qgrams 2 None) ''cat'' ''hat'')) ''at''"
    by (rule conjunct1)
  ultimately show ?thesis using mem by simp
qed

lemma exact_sel:
  "fadd exact x y = x + y" "fmul exact x y = x * y" "fdiv exact x y = x / y" "flog exact x = ln x"
  by (simp_all add: exact_def)

lemma guarded_val_in_exact: "guarded_val_in exact = guarded_val"
  by (intro ext)
     (simp add: guarded_val_in_def guarded_val_def truediv_in_def py_truediv_def
        log_in_def py_log_def exact_sel cong: if_cong)

lemma millar_term_in_exact: "millar_term_in exact = millar_term"
  by (intro ext)
     (simp add: millar_term_in_def millar_term_def guarded_val_in_exact truediv_in_def
        py_truediv_def exact_sel cong: if_cong)

lemma millar_loop_in_exact: "millar_loop_in exact s t l al sc = millar_loop s t l al sc"
  by (induction al arbitrary: sc) (simp_all add: millar_term_in_exact exact_sel split: sum.splits)

lemma millar_dist_in_exact: "millar_dist_in exact = millar_dist"
  by (intro ext)
     (simp add: millar_dist_in_def millar_dist_def log_in_def py_log_def exact_sel
        millar_loop_in_exact)

lemma guarded_val_in_ok:
  assumes "quotients_positive ar" "cnt \<le> n" "0 < n"
  shows "\<exists>v. guarded_val_in ar cnt n = Inr v"
proof (cases "cnt = 0")
  case True
  then show ?thesis by (simp add: guarded_val_in_def)
next
  case False
  then have "0 < fdiv ar (real cnt) (real n)"
    using assms by (simp add: quotients_positive_def)
  then show ?thesis using False assms(3)
    by (simp add: guarded_val_in_def truediv_in_def log_in_def bind_err_def)
qed

lemma millar_term_in_ok:
  assumes "quotients_positive ar" "0 < counter_get s tok + counter_get t tok"
  shows "\<exists>v. millar_term_in ar s t l tok = Inr v"
proof -
  let ?a = "counter_get s tok" and ?b = "counter_get t tok"
  obtain v where v: "guarded_val_in ar ?a (?a + ?b) = Inr v"
    using guarded_val_in_ok [OF assms(1), of ?a "?a + ?b"] assms(2) by auto
  obtain w where w: "guarded_val_in ar ?b (?a + ?b) = Inr w"
    using guarded_val_in_ok [OF assms(1), of ?b "?a + ?b"] assms(2) by auto
  have "?a + ?b \<noteq> 0" using assms(2) by simp
  then have nz: "real (?a + ?b) \<noteq> 0" by (simp only: of_nat_eq_0_iff not_False_eq_True)
  show ?thesis
    unfolding millar_term_in_def Let_def v w bind_err_def truediv_in_def
    using nz by simp
qed

lemma millar_loop_in_ok:
  assumes "quotients_positive ar"
    and "\<forall>tok\<in>set al. 0 < counter_get s tok + counter_get t tok"
  shows "\<exists>score'. millar_loop_in ar s t l al score = Inr score'"
  using assms(2)
proof (induction al arbitrary: score)
  case Nil
  show ?case by simp
next
  case (Cons tok rest)
  obtain v where v: "millar_term_in ar s t l tok = Inr v"
    using millar_term_in_ok [OF assms(1), of s tok t l] Cons.prems by auto
  have "\<forall>k\<in>set rest. 0 < counter_get s k + counter_get t k"
    using Cons.prems by simp
  then show ?case using Cons.IH v by simp
qed

lemma quotients_positive_binary64: "quotients_positive binary64"
  unfolding quotients_positive_def
proof (intro allI impI)
  fix a n :: nat
  assume "0 < a \<and> a \<le> n"
  then have "0 < real a / real n" by simp
  then show "0 < fdiv binary64 (real a) (real n)"
    unfolding binary64_sel by (rule fl_pos)
qed

text \<open>
  Claim C4. The value returned is never negative, however the floating-point
  operations round: the loop leaves an accumulated \<open>score\<close>, which round-off may make
  negative; the result is 0 when \<open>score \<le> 0\<close> and \<open>score\<close> itself otherwise.
\<close>

theorem millar_dist_nonneg:
  assumes "quotients_positive ar"
  shows "\<exists>score r.
     millar_loop_in ar (tar_tokens (tokenize tokenizer a b)) (src_tokens (tokenize tokenizer a b))
       (flog ar 2)
       (alphabet_of (tar_tokens (tokenize tokenizer a b)) (src_tokens (tokenize tokenizer a b))) 0
       = Inr score
     \<and> millar_dist_in ar tokenizer a b = Inr r
     \<and> r = (if score \<le> 0 then 0 else score)
     \<and> 0 \<le> r"
proof -
  let ?s = "tar_tokens (tokenize tokenizer a b)" and ?t = "src_tokens (tokenize tokenizer a b)"
  have st: "?s = Counter (tokenizer b)" "?t = Counter (tokenizer a)"
    by (simp_all add: tokenize_def)
  have "\<forall>tok\<in>set (alphabet_of ?s ?t). 0 < counter_get ?s tok + counter_get ?t tok"
    unfolding st
  proof (rule ballI)
    fix tok assume "tok \<in> set (alphabet_of (Counter (tokenizer b)) (Counter (tokenizer a)))"
    then show "0 < counter_get (Counter (tokenizer b)) tok + counter_get (Counter (tokenizer a)) tok"
      by (rule alphabet_count_pos)
  qed
  then obtain score where
    loop: "millar_loop_in ar ?s ?t (flog ar 2) (alphabet_of ?s ?t) 0 = Inr score"
    using millar_loop_in_ok [OF assms] by blast
  have d: "millar_dist_in ar tokenizer a b = Inr (if score \<le> 0 then 0 else score)"
    using loop by (simp add: millar_dist_in_def Let_def log_in_def bind_err_def)
  have "0 \<le> (if score \<le> 0 then 0 else score)" by simp
  with loop d show ?thesis by blast
qed

lemma quotients_positive_log_low: "quotients_positive log_low"
  by (simp add: quotients_positive_def log_low_def)

lemma loop_log_low_aa:
  "millar_loop_in log_low (tar_tokens (tokenize (qgrams 2 None) ''aa'' ''aa''))
       (src_tokens (tokenize (qgrams 2 None) ''aa'' ''aa'')) (flog log_low 2)
       (alphabet_of (tar_tokens (tokenize (qgrams 2 None) ''aa'' ''aa''))
                    (src_tokens (tokenize (qgrams 2 None) ''aa'' ''aa''))) 0
   = Inr (- (2 / 2 ^ 60))"
proof -
  have q: "qgrams 2 None ''aa'' = [''aa'']" by code_simp
  have al: "alphabet_of (Counter [''aa'']) (Counter [''aa'']) = [''aa'']" by code_simp
  have g: "counter_get (Counter [''aa'']) ''aa'' = 1" by (simp add: counter_get_Counter)
  have l: "ln (1 / 2 :: real) = - ln 2" by (simp add: ln_div)
  have t: "millar_term_in log_low (Counter [''aa'']) (Counter [''aa'']) (flog log_low 2) ''aa''
           = Inr (- (2 / 2 ^ 60))"
    unfolding millar_term_in_def guarded_val_in_def g
    by (simp add: truediv_in_def log_in_def bind_err_def log_low_def l)
  show ?thesis
    unfolding tokenize_def q
    by (simp add: al t) (simp add: log_low_def)
qed

theorem millar_dist_nonneg_witness:
  "quotients_positive log_low
   \<and> millar_loop_in log_low (tar_tokens (tokenize (qgrams 2 None) ''aa'' ''aa''))
       (src_tokens (tokenize (qgrams 2 None) ''aa'' ''aa'')) (flog log_low 2)
       (alphabet_of (tar_tokens (tokenize (qgrams 2 None) ''aa'' ''aa''))
                    (src_tokens (tokenize (qgrams 2 None) ''aa'' ''aa''))) 0
     = Inr (- (2 / 2 ^ 60))
   \<and> millar_dist_in log_low (qgrams 2 None) ''aa'' ''aa'' = Inr 0
   \<and> quotients_positive binary64
   \<and> (\<exists>r. millar_dist_in binary64 (qgrams 2 (Some (CHR ''$'', CHR ''#''))) ''cat'' ''hat'' = Inr r
            \<and> 0 \<le> r)"
proof -
  from millar_dist_nonneg [OF quotients_positive_log_low, of "qgrams 2 None" "''aa''" "''aa''"]
  obtain score r where
    "millar_loop_in log_low (tar_tokens (tokenize (qgrams 2 None) ''aa'' ''aa''))
       (src_tokens (tokenize (qgrams 2 None) ''aa'' ''aa'')) (flog log_low 2)
       (alphabet_of (tar_tokens (tokenize (qgrams 2 None) ''aa'' ''aa''))
                    (src_tokens (tokenize (qgrams 2 None) ''aa'' ''aa''))) 0 = Inr score"
    and d: "millar_dist_in log_low (qgrams 2 None) ''aa'' ''aa'' = Inr r"
    and r: "r = (if score \<le> 0 then 0 else score)"
    by blast
  then have "score = - (2 / 2 ^ 60)" by (simp add: loop_log_low_aa)
  with r have "r = 0" by simp
  with d have d0: "millar_dist_in log_low (qgrams 2 None) ''aa'' ''aa'' = Inr 0" by simp
  from millar_dist_nonneg [OF quotients_positive_binary64,
      of "qgrams 2 (Some (CHR ''$'', CHR ''#''))" "''cat''" "''hat''"]
  have b: "\<exists>r. millar_dist_in binary64 (qgrams 2 (Some (CHR ''$'', CHR ''#''))) ''cat'' ''hat'' = Inr r
            \<and> 0 \<le> r"
    by blast
  from d0 b quotients_positive_log_low quotients_positive_binary64 loop_log_low_aa
  show ?thesis by blast
qed

section \<open>Identity and symmetry\<close>

lemma millar_dist_refl: "millar_dist tokenizer s s = Inr 0"
  by (simp add: millar_dist_set contribution_equal clamp_def)

text \<open>
  Claim C2. The distance of a string to itself is 0, for every string and tokenizer;
  with the q-gram tokenizer two empty strings give an empty alphabet and the result 0.
\<close>

theorem millar_dist_self:
  "millar_dist tokenizer s s = Inr 0
   \<and> alphabet_of (tar_tokens (tokenize (qgrams q start_stop) [] []))
                 (src_tokens (tokenize (qgrams q start_stop) [] [])) = []
   \<and> millar_dist (qgrams q start_stop) [] [] = Inr 0"
proof -
  have "alphabet_of (tar_tokens (tokenize (qgrams q start_stop) [] []))
                 (src_tokens (tokenize (qgrams q start_stop) [] [])) = []"
    by (simp add: tokenize_def qgrams_def Counter_def alphabet_of_def keys_Nil)
  then show ?thesis by (simp add: millar_dist_refl)
qed

lemma millar_dist_exact_commute: "millar_dist tokenizer a b = millar_dist tokenizer b a"
  by (simp add: millar_dist_set Un_commute contribution_commute [of "count_list (tokenizer b) _"])

lemma millar_term_exact_commute:
  "millar_term src_tok tar_tok log2 tok = millar_term tar_tok src_tok log2 tok"
proof -
  have g: "\<exists>v. guarded_val cnt (cnt + m) = Inr v \<and> guarded_val cnt (m + cnt) = Inr v" for cnt m
    by (cases "cnt = 0") (simp_all add: guarded_val_def py_truediv_def py_log_def bind_err_def add.commute)
  obtain v where v: "guarded_val (counter_get src_tok tok) (counter_get src_tok tok + counter_get tar_tok tok) = Inr v"
      "guarded_val (counter_get src_tok tok) (counter_get tar_tok tok + counter_get src_tok tok) = Inr v"
    using g by blast
  obtain w where w: "guarded_val (counter_get tar_tok tok) (counter_get tar_tok tok + counter_get src_tok tok) = Inr w"
      "guarded_val (counter_get tar_tok tok) (counter_get src_tok tok + counter_get tar_tok tok) = Inr w"
    using g by blast
  show ?thesis
    unfolding millar_term_def Let_def v w bind_err_def
    by (simp add: add.commute)
qed

lemma guarded_val_binary64_ok:
  "\<exists>v. guarded_val_in binary64 cnt (cnt + m) = Inr v \<and> guarded_val_in binary64 cnt (m + cnt) = Inr v"
proof (cases "cnt = 0")
  case True
  then show ?thesis by (simp add: guarded_val_in_def)
next
  case False
  then have "0 < real cnt / real (cnt + m)" by simp
  then have "0 < fl (real cnt / real (cnt + m))" by (rule fl_pos)
  then show ?thesis using False
    by (simp add: guarded_val_in_def truediv_in_def log_in_def bind_err_def binary64_sel add.commute)
qed

lemma millar_term_binary64_commute:
  "millar_term_in binary64 src_tok tar_tok log2 tok = millar_term_in binary64 tar_tok src_tok log2 tok"
proof -
  obtain v where v: "guarded_val_in binary64 (counter_get src_tok tok) (counter_get src_tok tok + counter_get tar_tok tok) = Inr v"
      "guarded_val_in binary64 (counter_get src_tok tok) (counter_get tar_tok tok + counter_get src_tok tok) = Inr v"
    using guarded_val_binary64_ok by blast
  obtain w where w: "guarded_val_in binary64 (counter_get tar_tok tok) (counter_get tar_tok tok + counter_get src_tok tok) = Inr w"
      "guarded_val_in binary64 (counter_get tar_tok tok) (counter_get src_tok tok + counter_get tar_tok tok) = Inr w"
    using guarded_val_binary64_ok by blast
  show ?thesis
    unfolding millar_term_in_def Let_def v w bind_err_def
    by (simp add: add.commute binary64_sel truediv_in_def)
qed

lemma millar_loop_binary64_commute:
  "millar_loop_in binary64 src_tok tar_tok log2 al score
     = millar_loop_in binary64 tar_tok src_tok log2 al score"
  by (induction al arbitrary: score)
     (simp_all add: millar_term_binary64_commute split: sum.splits)

text \<open>
  Claim C3, as stated: the distance of \<open>(a, b)\<close> equals that of \<open>(b, a)\<close>. In double
  precision it does not: for \<open>aaaa\<close> and \<open>aabb\<close> the two calls add the same six
  summands, each in the order in which it enumerates the alphabet, and the two sums
  differ in the last bit.
\<close>

theorem millar_dist_symmetric_counterexample:
  "millar_dist_in binary64 (qgrams 2 (Some (CHR ''$'', CHR ''#''))) ''aaaa'' ''aabb''
     \<noteq> millar_dist_in binary64 (qgrams 2 (Some (CHR ''$'', CHR ''#''))) ''aabb'' ''aaaa''"
  unfolding dist_aaaa_aabb dist_aabb_aaaa by simp

text \<open>
  Claim C3, amended: the summand of every token is symmetric in the two frequency
  counts, in exact arithmetic and in double precision, and so is the sum over one and
  the same enumeration of the alphabet; in exact arithmetic, where the order of the
  summands does not matter, the distance of \<open>(a, b)\<close> equals that of \<open>(b, a)\<close>.
\<close>

theorem millar_dist_symmetric:
  "millar_term src_tok tar_tok log2 tok = millar_term tar_tok src_tok log2 tok
   \<and> millar_term_in binary64 src_tok tar_tok log2 tok
       = millar_term_in binary64 tar_tok src_tok log2 tok
   \<and> millar_loop_in binary64 src_tok tar_tok log2 al score
       = millar_loop_in binary64 tar_tok src_tok log2 al score
   \<and> millar_dist tokenizer a b = millar_dist tokenizer b a"
  using millar_term_exact_commute [of src_tok tar_tok log2 tok]
    millar_term_binary64_commute [of src_tok tar_tok log2 tok]
    millar_loop_binary64_commute [of src_tok tar_tok log2 al score]
    millar_dist_exact_commute [of tokenizer a b]
  by (intro conjI)

lemma sum_list_const:
  "(\<And>x. x \<in> set xs \<Longrightarrow> f x = (c::real)) \<Longrightarrow> sum_list (map f xs) = c * real (length xs)"
  by (induction xs) (simp_all add: algebra_simps)

lemma clamp_nonneg: "0 \<le> x \<Longrightarrow> clamp x = x"
  by (simp add: clamp_def)

lemma count_list_pos: "x \<in> set xs \<Longrightarrow> 0 < count_list xs x"
  using count_list_0_iff [of xs x] by simp

section \<open>Tokens of one string only\<close>

text \<open>
  In exact arithmetic a token that is a key of only one of the two frequency mappings
  adds exactly \<open>ln 2\<close> to the score, whatever its count; a token with the same count
  in both adds 0; for two strings with disjoint, non-empty token sets the distance is
  \<open>ln 2\<close> times the number of tokens of the alphabet.
\<close>

lemma one_sided_tokens_exact:
  "(tok \<in> set (keys (Counter xs)) \<and> tok \<notin> set (keys (Counter ys)) \<longrightarrow>
      millar_term (Counter xs) (Counter ys) (ln 2) tok = Inr (ln 2)
      \<and> millar_term (Counter ys) (Counter xs) (ln 2) tok = Inr (ln 2))
   \<and> (tok' \<in> set (keys (Counter xs')) \<and>
        counter_get (Counter xs') tok' = counter_get (Counter ys') tok' \<longrightarrow>
      millar_term (Counter xs') (Counter ys') (ln 2) tok' = Inr 0)
   \<and> (set (keys (src_tokens (tokenize tokenizer a b)))
          \<inter> set (keys (tar_tokens (tokenize tokenizer a b))) = {}
        \<and> keys (src_tokens (tokenize tokenizer a b)) \<noteq> []
        \<and> keys (tar_tokens (tokenize tokenizer a b)) \<noteq> [] \<longrightarrow>
      millar_dist tokenizer a b =
        Inr (ln 2 * real (length (alphabet_of (tar_tokens (tokenize tokenizer a b))
                                               (src_tokens (tokenize tokenizer a b))))))"
proof (intro conjI impI)
  assume h: "tok \<in> set (keys (Counter xs)) \<and> tok \<notin> set (keys (Counter ys))"
  then have x: "0 < counter_get (Counter xs) tok" and y: "counter_get (Counter ys) tok = 0"
    by (simp_all add: keys_Counter counter_get_Counter count_list_pos)
  from x y show "millar_term (Counter xs) (Counter ys) (ln 2) tok = Inr (ln 2)"
    by (simp add: millar_term_ok contribution_only_left)
  from x y show "millar_term (Counter ys) (Counter xs) (ln 2) tok = Inr (ln 2)"
    by (simp add: millar_term_ok contribution_only_right)
next
  assume h: "tok' \<in> set (keys (Counter xs')) \<and>
        counter_get (Counter xs') tok' = counter_get (Counter ys') tok'"
  then have "tok' \<in> set xs'" by (simp add: keys_Counter)
  then have "0 < counter_get (Counter xs') tok'"
    by (simp only: counter_get_Counter count_list_pos)
  with h show "millar_term (Counter xs') (Counter ys') (ln 2) tok' = Inr 0"
    by (simp add: millar_term_ok contribution_same)
next
  assume h: "set (keys (src_tokens (tokenize tokenizer a b)))
          \<inter> set (keys (tar_tokens (tokenize tokenizer a b))) = {}
        \<and> keys (src_tokens (tokenize tokenizer a b)) \<noteq> []
        \<and> keys (tar_tokens (tokenize tokenizer a b)) \<noteq> []"
  then have disj: "set (tokenizer a) \<inter> set (tokenizer b) = {}"
    by (simp add: tokenize_def keys_Counter)
  let ?al = "alphabet_of (Counter (tokenizer b)) (Counter (tokenizer a))"
  let ?f = "\<lambda>tok. contribution (count_list (tokenizer b) tok) (count_list (tokenizer a) tok)"
  have "?f t = ln 2" if "t \<in> set ?al" for t
  proof -
    from that have "t \<in> set (tokenizer b) \<or> t \<in> set (tokenizer a)"
      by (simp add: set_alphabet_of)
    then show ?thesis
    proof
      assume tb: "t \<in> set (tokenizer b)"
      with disj have "t \<notin> set (tokenizer a)" by blast
      with tb show ?thesis
        by (simp add: contribution_only_left count_list_pos)
    next
      assume ta: "t \<in> set (tokenizer a)"
      with disj have "t \<notin> set (tokenizer b)" by blast
      with ta show ?thesis
        by (simp add: contribution_only_right count_list_pos)
    qed
  qed
  then have "sum_list (map ?f ?al) = ln 2 * real (length ?al)"
    by (rule sum_list_const)
  moreover have "0 \<le> ln 2 * real (length ?al)" by simp
  ultimately show "millar_dist tokenizer a b =
        Inr (ln 2 * real (length (alphabet_of (tar_tokens (tokenize tokenizer a b))
                                               (src_tokens (tokenize tokenizer a b)))))"
    by (simp add: millar_dist_list clamp_nonneg tokenize_def)
qed


lemma tokens_a48: "qgrams 2 None (replicate 48 (CHR ''a'')) = replicate 47 ''aa''"
  by code_simp

text \<open>
  Claim C10, as stated: a token of one mapping only adds exactly \<open>log 2\<close>, whatever its
  count. In double precision it does not: in the call for the string of 48 letters
  \<open>a\<close> and the empty string the token \<open>aa\<close> is in the first mapping only, with count
  47, and its summand is one unit in the last place above \<open>log 2\<close>.
\<close>

theorem millar_one_sided_tokens_counterexample:
  "''aa'' \<in> set (keys (src_tokens (tokenize (qgrams 2 None) (replicate 48 (CHR ''a'')) [])))
   \<and> ''aa'' \<notin> set (keys (tar_tokens (tokenize (qgrams 2 None) (replicate 48 (CHR ''a'')) [])))
   \<and> millar_term_in binary64
        (tar_tokens (tokenize (qgrams 2 None) (replicate 48 (CHR ''a'')) []))
        (src_tokens (tokenize (qgrams 2 None) (replicate 48 (CHR ''a'')) []))
        (flog binary64 2) ''aa''
      \<noteq> Inr (flog binary64 2)"
proof -
  have q0: "qgrams 2 None ([] :: string) = []" by (simp add: qgrams_def)
  have c: "counter_get (Counter (replicate 47 ''aa'')) ''aa'' = 47"
    by (simp only: counter_get_Counter count_list_replicate)
  have z: "counter_get (Counter []) ''aa'' = 0"
    by (simp add: counter_get_Counter)
  have p: "0 < counter_get (Counter (replicate 47 ''aa'')) ''aa''" unfolding c by simp
  have "millar_term_in binary64 (Counter []) (Counter (replicate 47 ''aa'')) (flog binary64 2) ''aa''
          = Inr (390207173010335 / 562949953421312)"
    unfolding one_sided_binary64(2) [OF p z] c by (simp add: binary64_sel fl_ln2 fl_vals)
  then show ?thesis
    by (simp add: tokenize_def tokens_a48 q0 keys_Counter binary64_sel fl_ln2)
qed

text \<open>
  Claim C10, amended: a token that is a key of only one of the two frequency mappings,
  with count \<open>c\<close>, adds \<open>(c * log 2) / c\<close> to the score; in exact arithmetic that is
  exactly \<open>ln 2\<close> whatever the count, in double precision it is the product and the
  quotient rounded one after the other, which is \<open>log 2\<close> for some counts and not for
  others. A token with the same count in both mappings adds exactly 0, in exact
  arithmetic and in double precision. For two strings with disjoint, non-empty token
  sets the distance is, in exact arithmetic, \<open>ln 2\<close> times the number of tokens of the
  alphabet.
\<close>

theorem millar_one_sided_tokens:
  "(tok \<in> set (keys (Counter xs)) \<and> tok \<notin> set (keys (Counter ys)) \<longrightarrow>
      millar_term (Counter xs) (Counter ys) (ln 2) tok = Inr (ln 2)
      \<and> millar_term (Counter ys) (Counter xs) (ln 2) tok = Inr (ln 2)
      \<and> millar_term_in binary64 (Counter xs) (Counter ys) (flog binary64 2) tok
          = Inr (fl (fl (real (counter_get (Counter xs) tok) * flog binary64 2)
                     / real (counter_get (Counter xs) tok)))
      \<and> millar_term_in binary64 (Counter ys) (Counter xs) (flog binary64 2) tok
          = Inr (fl (fl (real (counter_get (Counter xs) tok) * flog binary64 2)
                     / real (counter_get (Counter xs) tok))))
   \<and> (tok' \<in> set (keys (Counter xs')) \<and>
        counter_get (Counter xs') tok' = counter_get (Counter ys') tok' \<longrightarrow>
      millar_term (Counter xs') (Counter ys') (ln 2) tok' = Inr 0
      \<and> millar_term_in binary64 (Counter xs') (Counter ys') (flog binary64 2) tok' = Inr 0)
   \<and> (set (keys (src_tokens (tokenize tokenizer a b)))
          \<inter> set (keys (tar_tokens (tokenize tokenizer a b))) = {}
        \<and> keys (src_tokens (tokenize tokenizer a b)) \<noteq> []
        \<and> keys (tar_tokens (tokenize tokenizer a b)) \<noteq> [] \<longrightarrow>
      millar_dist tokenizer a b =
        Inr (ln 2 * real (length (alphabet_of (tar_tokens (tokenize tokenizer a b))
                                               (src_tokens (tokenize tokenizer a b))))))"
proof (intro conjI impI)
  assume h: "tok \<in> set (keys (Counter xs)) \<and> tok \<notin> set (keys (Counter ys))"
  then have x: "0 < counter_get (Counter xs) tok" and y: "counter_get (Counter ys) tok = 0"
    by (simp_all add: keys_Counter counter_get_Counter count_list_pos)
  have ex: "millar_term (Counter xs) (Counter ys) (ln 2) tok = Inr (ln 2)
      \<and> millar_term (Counter ys) (Counter xs) (ln 2) tok = Inr (ln 2)"
    using h one_sided_tokens_exact [of tok xs ys tok' xs' ys' tokenizer a b] by blast
  show "millar_term (Counter xs) (Counter ys) (ln 2) tok = Inr (ln 2)"
    using ex by (rule conjunct1)
  show "millar_term (Counter ys) (Counter xs) (ln 2) tok = Inr (ln 2)"
    using ex by (rule conjunct2)
  show "millar_term_in binary64 (Counter xs) (Counter ys) (flog binary64 2) tok
          = Inr (fl (fl (real (counter_get (Counter xs) tok) * flog binary64 2)
                     / real (counter_get (Counter xs) tok)))"
    using x y by (rule one_sided_binary64(1))
  show "millar_term_in binary64 (Counter ys) (Counter xs) (flog binary64 2) tok
          = Inr (fl (fl (real (counter_get (Counter xs) tok) * flog binary64 2)
                     / real (counter_get (Counter xs) tok)))"
    using x y by (rule one_sided_binary64(2))
next
  assume h: "tok' \<in> set (keys (Counter xs')) \<and>
        counter_get (Counter xs') tok' = counter_get (Counter ys') tok'"
  then have "tok' \<in> set xs'" by (simp add: keys_Counter)
  then have p: "0 < counter_get (Counter xs') tok'"
    by (simp only: counter_get_Counter count_list_pos)
  from h show "millar_term (Counter xs') (Counter ys') (ln 2) tok' = Inr 0"
    using one_sided_tokens_exact [of tok xs ys tok' xs' ys' tokenizer a b] by blast
  from h have e: "counter_get (Counter xs') tok' = counter_get (Counter ys') tok'" by simp
  show "millar_term_in binary64 (Counter xs') (Counter ys') (flog binary64 2) tok' = Inr 0"
    using p e by (rule equal_counts_binary64)
next
  assume "set (keys (src_tokens (tokenize tokenizer a b)))
          \<inter> set (keys (tar_tokens (tokenize tokenizer a b))) = {}
        \<and> keys (src_tokens (tokenize tokenizer a b)) \<noteq> []
        \<and> keys (tar_tokens (tokenize tokenizer a b)) \<noteq> []"
  then show "millar_dist tokenizer a b =
        Inr (ln 2 * real (length (alphabet_of (tar_tokens (tokenize tokenizer a b))
                                               (src_tokens (tokenize tokenizer a b)))))"
    using one_sided_tokens_exact [of tok xs ys tok' xs' ys' tokenizer a b] by blast
qed

theorem millar_one_sided_tokens_witness:
  "(''ab'' \<in> set (keys (Counter [''ab'', ''ab''])) \<and> ''ab'' \<notin> set (keys (Counter [''cd''])))
   \<and> millar_term (Counter [''ab'', ''ab'']) (Counter [''cd'']) (ln 2) ''ab'' = Inr (ln 2)
   \<and> millar_term_in binary64 (Counter [''ab'', ''ab'']) (Counter [''cd'']) (flog binary64 2) ''ab''
       = Inr (flog binary64 2)
   \<and> (''at'' \<in> set (keys (Counter [''ca'', ''at''])) \<and>
        counter_get (Counter [''ca'', ''at'']) ''at'' = counter_get (Counter [''ha'', ''at'']) ''at'')
   \<and> millar_term (Counter [''ca'', ''at'']) (Counter [''ha'', ''at'']) (ln 2) ''at'' = Inr 0
   \<and> millar_term_in binary64 (Counter [''ca'', ''at'']) (Counter [''ha'', ''at''])
        (flog binary64 2) ''at'' = Inr 0
   \<and> (set (keys (src_tokens (tokenize (qgrams 2 None) ''ab'' ''cd'')))
          \<inter> set (keys (tar_tokens (tokenize (qgrams 2 None) ''ab'' ''cd''))) = {}
        \<and> keys (src_tokens (tokenize (qgrams 2 None) ''ab'' ''cd'')) \<noteq> []
        \<and> keys (tar_tokens (tokenize (qgrams 2 None) ''ab'' ''cd'')) \<noteq> [])
   \<and> millar_dist (qgrams 2 None) ''ab'' ''cd'' = Inr (ln 2 * 2)"
proof -
  have h1: "''ab'' \<in> set (keys (Counter [''ab'', ''ab''])) \<and> ''ab'' \<notin> set (keys (Counter [''cd'']))"
    by (simp add: keys_Counter)
  have h2: "''at'' \<in> set (keys (Counter [''ca'', ''at''])) \<and>
        counter_get (Counter [''ca'', ''at'']) ''at'' = counter_get (Counter [''ha'', ''at'']) ''at''"
    by (simp add: keys_Counter counter_get_Counter)
  have k: "keys (src_tokens (tokenize (qgrams 2 None) ''ab'' ''cd'')) = [''ab'']"
      "keys (tar_tokens (tokenize (qgrams 2 None) ''ab'' ''cd'')) = [''cd'']"
    by code_simp+
  have h3: "set (keys (src_tokens (tokenize (qgrams 2 None) ''ab'' ''cd'')))
          \<inter> set (keys (tar_tokens (tokenize (qgrams 2 None) ''ab'' ''cd''))) = {}
        \<and> keys (src_tokens (tokenize (qgrams 2 None) ''ab'' ''cd'')) \<noteq> []
        \<and> keys (tar_tokens (tokenize (qgrams 2 None) ''ab'' ''cd'')) \<noteq> []"
    unfolding k by simp
  have len: "length (alphabet_of (tar_tokens (tokenize (qgrams 2 None) ''ab'' ''cd''))
                                 (src_tokens (tokenize (qgrams 2 None) ''ab'' ''cd''))) = 2"
    by code_simp
  have c: "counter_get (Counter [''ab'', ''ab'']) ''ab'' = 2"
    by (simp add: counter_get_Counter)
  note t = millar_one_sided_tokens [of "''ab''" "[''ab'', ''ab'']" "[''cd'']"
             "''at''" "[''ca'', ''at'']" "[''ha'', ''at'']" "qgrams 2 None" "''ab''" "''cd''"]
  have c1: "millar_term (Counter [''ab'', ''ab'']) (Counter [''cd'']) (ln 2) ''ab'' = Inr (ln 2)"
    using t h1 by blast
  have "millar_term_in binary64 (Counter [''ab'', ''ab'']) (Counter [''cd'']) (flog binary64 2) ''ab''
          = Inr (fl (fl (real (counter_get (Counter [''ab'', ''ab'']) ''ab'') * flog binary64 2)
                     / real (counter_get (Counter [''ab'', ''ab'']) ''ab'')))"
    using t h1 by blast
  then have c1': "millar_term_in binary64 (Counter [''ab'', ''ab'']) (Counter [''cd''])
                    (flog binary64 2) ''ab'' = Inr (flog binary64 2)"
    unfolding c by (simp add: binary64_sel fl_double fl_idem)
  have c2: "millar_term (Counter [''ca'', ''at'']) (Counter [''ha'', ''at'']) (ln 2) ''at'' = Inr 0"
    using t h2 by blast
  have c2': "millar_term_in binary64 (Counter [''ca'', ''at'']) (Counter [''ha'', ''at''])
        (flog binary64 2) ''at'' = Inr 0"
    using t h2 by blast
  have "millar_dist (qgrams 2 None) ''ab'' ''cd'' =
        Inr (ln 2 * real (length (alphabet_of (tar_tokens (tokenize (qgrams 2 None) ''ab'' ''cd''))
                                               (src_tokens (tokenize (qgrams 2 None) ''ab'' ''cd'')))))"
    using t h3 by blast
  then have c3: "millar_dist (qgrams 2 None) ''ab'' ''cd'' = Inr (ln 2 * 2)"
    unfolding len by simp
  from h1 h2 h3 c1 c1' c2 c2' c3 show ?thesis by blast
qed

section \<open>The examples of the docstring\<close>

lemma tokens_unpadded:
  "qgrams 2 None ''cat'' = [''ca'', ''at'']"
  "qgrams 2 None ''hat'' = [''ha'', ''at'']"
  "qgrams 2 None ''Niall'' = [''Ni'', ''ia'', ''al'', ''ll'']"
  "qgrams 2 None ''Neil'' = [''Ne'', ''ei'', ''il'']"
  "qgrams 2 None ''ATCG'' = [''AT'', ''TC'', ''CG'']"
  "qgrams 2 None ''TAGC'' = [''TA'', ''AG'', ''GC'']"
  by code_simp+

lemma tokens_padded:
  "qgrams 2 (Some (CHR ''$'', CHR ''#'')) ''cat'' = [''$c'', ''ca'', ''at'', ''t#'']"
  "qgrams 2 (Some (CHR ''$'', CHR ''#'')) ''hat'' = [''$h'', ''ha'', ''at'', ''t#'']"
  "qgrams 2 (Some (CHR ''$'', CHR ''#'')) ''Niall'' = [''$N'', ''Ni'', ''ia'', ''al'', ''ll'', ''l#'']"
  "qgrams 2 (Some (CHR ''$'', CHR ''#'')) ''Neil'' = [''$N'', ''Ne'', ''ei'', ''il'', ''l#'']"
  "qgrams 2 (Some (CHR ''$'', CHR ''#'')) ''ATCG'' = [''$A'', ''AT'', ''TC'', ''CG'', ''G#'']"
  "qgrams 2 (Some (CHR ''$'', CHR ''#'')) ''TAGC'' = [''$T'', ''TA'', ''AG'', ''GC'', ''C#'']"
  by code_simp+

lemma dist_cat_hat: "millar_dist (qgrams 2 None) ''cat'' ''hat'' = Inr (2 * ln 2)"
proof -
  have al: "alphabet_of (Counter [''ha'', ''at'']) (Counter [''ca'', ''at'']) = [''ha'', ''ca'', ''at'']"
    by code_simp
  show ?thesis
    unfolding millar_dist_list tokens_unpadded al
    by (simp add: contribution_only_left contribution_only_right contribution_same clamp_def)
qed

lemma dist_Niall_Neil: "millar_dist (qgrams 2 None) ''Niall'' ''Neil'' = Inr (7 * ln 2)"
proof -
  have al: "alphabet_of (Counter (qgrams 2 None ''Neil'')) (Counter (qgrams 2 None ''Niall''))
            = [''Ne'', ''ei'', ''il'', ''Ni'', ''ia'', ''al'', ''ll'']"
    by code_simp
  show ?thesis
    unfolding millar_dist_list al unfolding tokens_unpadded
    by (simp add: contribution_only_left contribution_only_right contribution_same clamp_def)
qed

lemma dist_ATCG_TAGC: "millar_dist (qgrams 2 None) ''ATCG'' ''TAGC'' = Inr (6 * ln 2)"
proof -
  have al: "alphabet_of (Counter (qgrams 2 None ''TAGC'')) (Counter (qgrams 2 None ''ATCG''))
            = [''TA'', ''AG'', ''GC'', ''AT'', ''TC'', ''CG'']"
    by code_simp
  show ?thesis
    unfolding millar_dist_list al unfolding tokens_unpadded
    by (simp add: contribution_only_left contribution_only_right contribution_same clamp_def)
qed

lemma dist_cat_hat_padded: "millar_dist (qgrams 2 (Some (CHR ''$'', CHR ''#''))) ''cat'' ''hat'' = Inr (4 * ln 2)"
proof -
  have al: "alphabet_of (Counter (qgrams 2 (Some (CHR ''$'', CHR ''#'')) ''hat'')) (Counter (qgrams 2 (Some (CHR ''$'', CHR ''#'')) ''cat''))
            = [''$h'', ''ha'', ''$c'', ''ca'', ''at'', ''t#'']"
    by code_simp
  show ?thesis
    unfolding millar_dist_list al unfolding tokens_padded
    by (simp add: contribution_only_left contribution_only_right contribution_same clamp_def)
qed

lemma dist_Niall_Neil_padded: "millar_dist (qgrams 2 (Some (CHR ''$'', CHR ''#''))) ''Niall'' ''Neil'' = Inr (7 * ln 2)"
proof -
  have al: "alphabet_of (Counter (qgrams 2 (Some (CHR ''$'', CHR ''#'')) ''Neil'')) (Counter (qgrams 2 (Some (CHR ''$'', CHR ''#'')) ''Niall''))
            = [''Ne'', ''ei'', ''il'', ''$N'', ''Ni'', ''ia'', ''al'', ''ll'', ''l#'']"
    by code_simp
  show ?thesis
    unfolding millar_dist_list al unfolding tokens_padded
    by (simp add: contribution_only_left contribution_only_right contribution_same clamp_def)
qed

lemma dist_ATCG_TAGC_padded: "millar_dist (qgrams 2 (Some (CHR ''$'', CHR ''#''))) ''ATCG'' ''TAGC'' = Inr (10 * ln 2)"
proof -
  have al: "alphabet_of (Counter (qgrams 2 (Some (CHR ''$'', CHR ''#'')) ''TAGC'')) (Counter (qgrams 2 (Some (CHR ''$'', CHR ''#'')) ''ATCG''))
            = [''$T'', ''TA'', ''AG'', ''GC'', ''C#'', ''$A'', ''AT'', ''TC'', ''CG'', ''G#'']"
    by code_simp
  show ?thesis
    unfolding millar_dist_list al unfolding tokens_padded
    by (simp add: contribution_only_left contribution_only_right contribution_same clamp_def)
qed

text \<open>
  Claim C1. The docstring of \<open>Millar.dist\<close> gives 0.0 for its three examples. The code
  does not return that: under 2-grams each example gives \<open>ln 2\<close> once for every token
  that only one of the two strings has, which is 2, 7 and 6 times \<open>ln 2\<close> without
  boundary markers and 4, 7 and 10 times \<open>ln 2\<close> with the markers \<open>$\<close> and \<open>#\<close>.
\<close>

theorem millar_docstring_examples:
  "millar_dist (qgrams 2 None) ''cat'' ''hat'' = Inr (2 * ln 2)
   \<and> millar_dist (qgrams 2 None) ''Niall'' ''Neil'' = Inr (7 * ln 2)
   \<and> millar_dist (qgrams 2 None) ''ATCG'' ''TAGC'' = Inr (6 * ln 2)
   \<and> millar_dist (qgrams 2 (Some (CHR ''$'', CHR ''#''))) ''cat'' ''hat'' = Inr (4 * ln 2)
   \<and> millar_dist (qgrams 2 (Some (CHR ''$'', CHR ''#''))) ''Niall'' ''Neil'' = Inr (7 * ln 2)
   \<and> millar_dist (qgrams 2 (Some (CHR ''$'', CHR ''#''))) ''ATCG'' ''TAGC'' = Inr (10 * ln 2)
   \<and> millar_dist (qgrams 2 (Some (CHR ''$'', CHR ''#''))) ''cat'' ''hat'' \<noteq> Inr 0"
proof -
  have "millar_dist (qgrams 2 (Some (CHR ''$'', CHR ''#''))) ''cat'' ''hat'' \<noteq> Inr 0"
    unfolding dist_cat_hat_padded by simp
  then show ?thesis
    by (simp only: dist_cat_hat dist_Niall_Neil dist_ATCG_TAGC
      dist_cat_hat_padded dist_Niall_Neil_padded dist_ATCG_TAGC_padded simp_thms)
qed

section \<open>Construction\<close>

text \<open>
  Claim C9. Constructing an instance with \<open>q < 1\<close> fails with InvalidConfiguration; an
  instance that is constructed carries the \<open>q\<close> that was given, which is then at least 1;
  and computing a distance never raises InvalidConfiguration.
\<close>

theorem configure_rejects_invalid_q:
  "(q < 1 \<longrightarrow> configure q m = Inl InvalidConfiguration)
   \<and> (\<forall>c. configure q' m' = Inr c \<longrightarrow> 1 \<le> q' \<and> qval c = q' \<and> mode c = m')
   \<and> distance c src tar \<noteq> Inl InvalidConfiguration"
proof (intro conjI impI allI)
  assume "q < 1"
  then show "configure q m = Inl InvalidConfiguration" by (simp add: configure_def)
next
  fix c assume "configure q' m' = Inr c"
  then show "1 \<le> q'" "qval c = q'" "mode c = m'"
    by (auto simp: configure_def split: if_splits)
next
  show "distance c src tar \<noteq> Inl InvalidConfiguration"
    by (simp add: distance_def millar_dist_list)
qed

theorem configure_rejects_invalid_q_witness:
  "(0::int) < 1 \<and> configure 0 CharacterNgram = Inl InvalidConfiguration
   \<and> configure 2 CharacterNgram = Inr \<lparr>qval = 2, mode = CharacterNgram\<rparr>
   \<and> (1::int) \<le> 2
   \<and> distance \<lparr>qval = 2, mode = CharacterNgram\<rparr> ''cat'' ''hat'' \<noteq> Inl InvalidConfiguration"
proof -
  note t = configure_rejects_invalid_q [of 0 CharacterNgram 2 CharacterNgram
             "\<lparr>qval = 2, mode = CharacterNgram\<rparr>" "''cat''" "''hat''"]
  have h1: "(0::int) < 1" by simp
  have h2: "configure 2 CharacterNgram = Inr \<lparr>qval = 2, mode = CharacterNgram\<rparr>"
    by (simp add: configure_def)
  from t h1 have c1: "configure 0 CharacterNgram = Inl InvalidConfiguration" by blast
  from t h2 have c2: "(1::int) \<le> 2" by blast
  from t have c3: "distance \<lparr>qval = 2, mode = CharacterNgram\<rparr> ''cat'' ''hat'' \<noteq> Inl InvalidConfiguration"
    by blast
  from h1 h2 c1 c2 c3 show ?thesis by blast
qed

end
